theory Spec2Isabelle
  imports Complex_Main
begin

text \<open>
  A model of the combat and wave logic of the game: the enemy's damage intake
  (\<^verbatim>\<open>Enemy.js\<close>), the player's sword hit and knockback (\<^verbatim>\<open>Player.js\<close>), and the
  scene's breakable tiles, spawn-point search, waves, player damage and collision
  callbacks (\<^verbatim>\<open>GameScene.js\<close>). Numbers are real numbers, except the wall clock of
  \<^verbatim>\<open>Date\<close> (whole milliseconds, an integer) and the counters (natural numbers, which
  start at 0 and only go up).
\<close>

section \<open>Engine interface\<close>

text \<open>
  The game runs on a third-party engine. The code under study talks to it through
  scheduled callbacks (\<^verbatim>\<open>scene.time.delayedCall\<close>, \<^verbatim>\<open>scene.time.addEvent\<close>, the
  \<^verbatim>\<open>onComplete\<close> of a tween) and through fire-and-forget presentation calls.
  Both are made explicit: a method returns, next to its result and the updated object,
  the list of engine calls it issued, in program order. Calls to \<^verbatim>\<open>console.log\<close>
  are left out.

  Objects are mutable and shared in the source, so every enemy carries its identity
  (\<open>ident\<close>), and a callback that closes over an enemy names that identity.
\<close>

datatype direction = Left | Right | Up | Down

datatype player_ref = ThePlayer

datatype callback =
    EnemyStunClear nat
  | EnemyClearTint nat
  | EnemyDestroy nat
  | StartNextWaveCb
  | ResetInvincible
  | PlayerFlash nat
  | PlayerClearTint
  | PlayerKnockbackReset
  | ShowGameOverCb
  | RestartPromptCb
  | ItemTintReset "int \<times> int" nat

datatype effect =
    AddExisting nat
  | PhysicsAddExisting nat
  | DeathExplosion real real
  | HitEffect real real
  | ItemExplosion int int
  | CameraShake real real
  | WaveText nat nat
  | VictoryText
  | GameOverText
  | PhysicsPause
  | RestartText

datatype engine_call =
    Schedule real callback
  | Present effect

section \<open>Enemy.js\<close>

datatype error = Error string

record anim_keys =
  idleLeft :: string
  idleRight :: string
  runLeft :: string
  runRight :: string

record enemy_config =
  cfg_texture :: "string option"
  cfg_frame :: "string option"
  cfg_scale :: "real option"
  cfg_bodySizeFactor :: "real option"
  cfg_bodySizeFactorY :: "real option"
  cfg_drag :: "real option"
  cfg_maxVelocity :: "real option"
  cfg_speed :: "real option"
  cfg_target :: "player_ref option"
  cfg_anims :: "anim_keys option"

record Enemy =
  ident :: nat
  enemy_x :: real
  enemy_y :: real
  texture :: string
  frame :: "string option"
  enemy_scale :: real
  velocity_x :: real
  velocity_y :: real
  body_enable :: bool
  maxVelocity :: real
  speed :: real
  currentDirection :: direction
  target :: "player_ref option"
  animKeys :: anim_keys
  stunned :: bool
  hitsToKill :: nat
  hitsTaken :: nat
  lastHitTime :: int
  hitCooldown :: int
  isDying :: bool
  enemy_tint :: "nat option"

text \<open>JavaScript truthiness of an optional string and of an optional number:
  \<^verbatim>\<open>undefined\<close>, the empty string and \<^verbatim>\<open>0\<close> are falsy.\<close>

definition truthy_str :: "string option \<Rightarrow> bool" where
  "truthy_str s = (case s of None \<Rightarrow> False | Some v \<Rightarrow> v \<noteq> [])"

definition or_default :: "real option \<Rightarrow> real \<Rightarrow> real" where
  "or_default v d = (case v of None \<Rightarrow> d | Some r \<Rightarrow> if r = 0 then d else r)"

text \<open>
  The constructor. \<open>i\<close> is the identity of the object under construction. The first
  check runs before anything else; the second one runs after the sprite has been
  registered with the scene and its physics world, so those two engine calls have
  been issued when it throws.
\<close>

definition Enemy_new ::
  "nat \<Rightarrow> real \<Rightarrow> real \<Rightarrow> enemy_config option \<Rightarrow> effect list \<times> (error + Enemy)" where
  "Enemy_new i x y config =
     (case config of
        None \<Rightarrow> ([], Inl (Error ''Enemy requires a 'texture' property in the config.''))
      | Some c \<Rightarrow>
          if \<not> truthy_str (cfg_texture c)
          then ([], Inl (Error ''Enemy requires a 'texture' property in the config.''))
          else
            let registered = [AddExisting i, PhysicsAddExisting i] in
            (case cfg_anims c of
               None \<Rightarrow> (registered, Inl (Error
                 ''Enemy requires an 'anims' object in the config with idleLeft, idleRight, runLeft, and runRight keys.''))
             | Some a \<Rightarrow> (registered, Inr
                 \<lparr> ident = i, enemy_x = x, enemy_y = y,
                   texture = the (cfg_texture c), frame = cfg_frame c,
                   enemy_scale = or_default (cfg_scale c) 1.2,
                   velocity_x = 0, velocity_y = 0, body_enable = True,
                   maxVelocity = or_default (cfg_maxVelocity c) 150,
                   speed = or_default (cfg_speed c) 150,
                   currentDirection = Right,
                   target = cfg_target c,
                   animKeys = a,
                   stunned = False,
                   hitsToKill = 3, hitsTaken = 0,
                   lastHitTime = 0, hitCooldown = 500,
                   isDying = False, enemy_tint = None \<rparr>)))"

text \<open>\<^verbatim>\<open>die()\<close>: the body is disabled, the explosion is shown at the enemy's position,
  and a 500 ms tween is started whose completion destroys the enemy.\<close>

definition die :: "Enemy \<Rightarrow> Enemy \<times> engine_call list" where
  "die e =
     (e\<lparr>body_enable := False\<rparr>,
      [Present (DeathExplosion (enemy_x e) (enemy_y e)), Schedule 500 (EnemyDestroy (ident e))])"

text \<open>\<^verbatim>\<open>takeDamage(damage)\<close>. \<open>currentTime\<close> is what \<^verbatim>\<open>new Date().getTime()\<close>
  returns during the call, in whole milliseconds. The result is the returned flag,
  the enemy after the call and the engine calls issued.\<close>

definition takeDamage :: "int \<Rightarrow> real \<Rightarrow> Enemy \<Rightarrow> bool \<times> Enemy \<times> engine_call list" where
  "takeDamage currentTime damage e =
     (if isDying e then (False, e, [])
      else if currentTime - lastHitTime e < hitCooldown e then (False, e, [])
      else
        let e1 = e\<lparr>lastHitTime := currentTime\<rparr>;
            e2 = e1\<lparr>hitsTaken := hitsTaken e1 + 1\<rparr>
        in if hitsTaken e2 \<ge> hitsToKill e2
           then (let e3 = e2\<lparr>isDying := True\<rparr>; (e4, calls) = die e3 in (True, e4, calls))
           else (False, e2, []))"

text \<open>A sequence of calls on one enemy, each with its clock reading and its damage
  argument; the list of returned flags is kept in call order.\<close>

fun takeDamage_calls :: "(int \<times> real) list \<Rightarrow> Enemy \<Rightarrow> bool list \<times> Enemy" where
  "takeDamage_calls [] e = ([], e)"
| "takeDamage_calls ((t, d) # cs) e =
     (case takeDamage t d e of
        (killed, e', _) \<Rightarrow> (case takeDamage_calls cs e' of (ks, e'') \<Rightarrow> (killed # ks, e'')))"

text \<open>The condition of the specification for a hit to count, read on the enemy's state
  at the moment of the call: not dying, and at least 500 ms since the last accepted hit.\<close>

definition hit_counts :: "int \<Rightarrow> Enemy \<Rightarrow> bool" where
  "hit_counts t e = (\<not> isDying e \<and> t - lastHitTime e \<ge> 500)"

text \<open>The rule of the specification on its own, over clock readings only. The state is
  whether the enemy is dying, the time of the last accepted hit and the number of
  accepted hits; a reading is accepted when the enemy is not dying and the reading is
  at least 500 past the last accepted one, and the third accepted hit is the killing
  one. \<open>spec_hit\<close> is one call (its first component is the returned flag) and
  \<open>spec_hits\<close> a sequence of calls.\<close>

definition spec_hit :: "int \<Rightarrow> bool \<times> int \<times> nat \<Rightarrow> bool \<times> bool \<times> int \<times> nat" where
  "spec_hit t st =
     (case st of (dying, lastAccepted, n) \<Rightarrow>
        if \<not> dying \<and> t - lastAccepted \<ge> 500 then (n + 1 \<ge> 3, n + 1 \<ge> 3, t, n + 1)
        else (False, dying, lastAccepted, n))"

fun spec_hits :: "int list \<Rightarrow> bool \<times> int \<times> nat \<Rightarrow> bool list \<times> bool \<times> int \<times> nat" where
  "spec_hits [] st = ([], st)"
| "spec_hits (t # ts) st =
     (case spec_hit t st of
        (killed, st') \<Rightarrow> (case spec_hits ts st' of (ks, st'') \<Rightarrow> (killed # ks, st'')))"


section \<open>Player.js\<close>

record Player =
  player_x :: real
  player_y :: real
  player_velocity_x :: real
  player_velocity_y :: real
  player_currentDirection :: direction
  attackDirection :: direction
  isAttacking :: bool
  isKnockedBack :: bool
  knockbackDuration :: real
  swordHitbox_enable :: bool
  attackDuration :: real
  attackDamage :: real
  knockbackForce :: real
  player_tint :: "nat option"
  player_alpha :: real

definition Player_new :: "real \<Rightarrow> real \<Rightarrow> Player" where
  "Player_new x y =
     \<lparr> player_x = x, player_y = y, player_velocity_x = 0, player_velocity_y = 0,
       player_currentDirection = Right, attackDirection = Right,
       isAttacking = False, isKnockedBack = False, knockbackDuration = 300,
       swordHitbox_enable = False, attackDuration = 200,
       attackDamage = 10, knockbackForce = 200,
       player_tint = None, player_alpha = 1 \<rparr>"

text \<open>\<^verbatim>\<open>hitEnemy(enemy)\<close>, the sword-overlap handler. \<open>currentTime\<close> is the wall
  clock the enemy's \<^verbatim>\<open>takeDamage\<close> reads. The two \<^verbatim>\<open>switch\<close> statements
  have no default branch, so an axis keeps its initial 0 unless the attack direction
  names it.\<close>

definition hitEnemy :: "int \<Rightarrow> Player \<Rightarrow> Enemy \<Rightarrow> bool \<times> Enemy \<times> engine_call list" where
  "hitEnemy currentTime p enemy =
     (if \<not> isAttacking p then (False, enemy, [])
      else
        let knockbackX = (case attackDirection p of
                            Right \<Rightarrow> knockbackForce p
                          | Left \<Rightarrow> - knockbackForce p
                          | Up \<Rightarrow> 0
                          | Down \<Rightarrow> 0);
            knockbackY = (case attackDirection p of
                            Right \<Rightarrow> 0
                          | Left \<Rightarrow> 0
                          | Up \<Rightarrow> - knockbackForce p
                          | Down \<Rightarrow> knockbackForce p);
            e1 = enemy\<lparr>velocity_x := knockbackX, velocity_y := knockbackY\<rparr>;
            (e2, c1) = (if \<not> stunned e1
                        then (e1\<lparr>stunned := True\<rparr>, [Schedule 500 (EnemyStunClear (ident e1))])
                        else (e1, []));
            e3 = e2\<lparr>enemy_tint := Some 0xff0000\<rparr>;
            c2 = [Schedule 150 (EnemyClearTint (ident e3))];
            (wasKilled, e4, c3) = takeDamage currentTime (attackDamage p) e3
        in (True, e4, c1 @ c2 @ c3))"

text \<open>\<^verbatim>\<open>knockback(velocityX, velocityY)\<close>.\<close>

definition knockback :: "real \<Rightarrow> real \<Rightarrow> Player \<Rightarrow> Player \<times> engine_call list" where
  "knockback velocityX velocityY p =
     (p\<lparr>isKnockedBack := True, player_velocity_x := velocityX, player_velocity_y := velocityY\<rparr>,
      [Schedule (knockbackDuration p) PlayerKnockbackReset])"

section \<open>UI.js\<close>

text \<open>The user interface object, as far as the health goes. \<open>hearts\<close> is the number of
  heart images the constructor creates (one per point of \<open>maxHealth\<close>), and
  \<open>heartPulseTween\<close> tells whether the pulse tween of the last heart exists. What the
  hearts look like is left out.\<close>

record UI =
  isPaused :: bool
  maxHealth :: int
  currentHealth :: int
  hearts :: nat
  heartPulseTween :: bool

definition UI_new :: "int \<Rightarrow> UI" where
  "UI_new playerHealth =
     \<lparr> isPaused = False, maxHealth = playerHealth, currentHealth = playerHealth,
       hearts = nat playerHealth, heartPulseTween = False \<rparr>"

definition startHeartPulse :: "UI \<Rightarrow> UI" where
  "startHeartPulse u =
     (if \<not> heartPulseTween u \<and> hearts u > 0 then u\<lparr>heartPulseTween := True\<rparr> else u)"

definition stopHeartPulse :: "UI \<Rightarrow> UI" where
  "stopHeartPulse u = (if heartPulseTween u then u\<lparr>heartPulseTween := False\<rparr> else u)"

text \<open>\<^verbatim>\<open>updateHealth(health)\<close> clamps the value it stores.\<close>

definition updateHealth :: "int \<Rightarrow> UI \<Rightarrow> UI" where
  "updateHealth h u =
     (let u1 = u\<lparr>currentHealth := max 0 (min h (maxHealth u))\<rparr>
      in if currentHealth u1 = 1 then startHeartPulse u1 else stopHeartPulse u1)"

text \<open>\<^verbatim>\<open>damagePlayer(amount)\<close> of the interface: it returns the difference it computed,
  not the clamped value it stored.\<close>

definition UI_damagePlayer :: "int \<Rightarrow> UI \<Rightarrow> int \<times> UI \<times> engine_call list" where
  "UI_damagePlayer amount u =
     (let newHealth = currentHealth u - amount;
          u1 = updateHealth newHealth u
      in (newHealth, u1, [Present (CameraShake 200 0.01)]))"

text \<open>\<^verbatim>\<open>healPlayer(amount)\<close> of the interface.\<close>

definition UI_healPlayer :: "int \<Rightarrow> UI \<Rightarrow> int \<times> UI" where
  "UI_healPlayer amount u =
     (let newHealth = currentHealth u + amount in (newHealth, updateHealth newHealth u))"


section \<open>GameScene.js\<close>

subsection \<open>Tiles, layers and the scene\<close>

text \<open>A tile layer is the list of its tiles; \<^verbatim>\<open>getTileAt\<close> looks a tile up by its
  grid coordinates and yields nothing where the layer has none. A property that a
  tile's property bag does not carry is \<^verbatim>\<open>undefined\<close>, hence falsy: \<open>False\<close> here.\<close>

record tile_properties =
  collides :: bool
  breakable :: bool

record tile =
  tile_x :: int
  tile_y :: int
  tile_index :: int
  properties :: "tile_properties option"
  tint :: nat

type_synonym layer = "tile list"

definition getTileAt :: "layer \<Rightarrow> int \<Rightarrow> int \<Rightarrow> tile option" where
  "getTileAt l tx ty = find (\<lambda>t. tile_x t = tx \<and> tile_y t = ty) l"

definition removeTileAt :: "int \<Rightarrow> int \<Rightarrow> layer \<Rightarrow> layer" where
  "removeTileAt tx ty l = filter (\<lambda>t. \<not> (tile_x t = tx \<and> tile_y t = ty)) l"

definition setTintAt :: "int \<Rightarrow> int \<Rightarrow> nat \<Rightarrow> layer \<Rightarrow> layer" where
  "setTintAt tx ty c l = map (\<lambda>t. if tile_x t = tx \<and> tile_y t = ty then t\<lparr>tint := c\<rparr> else t) l"

record tilemap =
  widthInPixels :: int
  heightInPixels :: int
  tileWidth :: int
  tileHeight :: int

text \<open>The record kept for a breakable tile. \<open>item_tile\<close> is the tile object the record
  refers to; the same object sits in the items layer until it is removed from there,
  so a write to its tint is made on both.\<close>

record breakable_item =
  item_tile :: tile
  hits :: nat
  maxHits :: nat
  item_lastHitTime :: real

text \<open>
  The scene. The key of \<open>breakableItems\<close> is the pair of tile coordinates that the
  source packs into the string \<^verbatim>\<open>`${tile.x},${tile.y}`\<close> and unpacks again with
  \<^verbatim>\<open>split(',').map(Number)\<close>. \<open>heap\<close> holds the enemy objects by identity and
  \<open>enemies\<close> is the array of the source, as identities. \<open>timers\<close> are the callbacks
  handed to the engine and not yet run, each with its delay; \<open>effects\<close> logs the
  presentation calls. \<open>rnd\<close> is the sequence of values that \<^verbatim>\<open>Math.random()\<close> will
  return, each in \<open>[0, 1)\<close>, and \<open>rnd_pos\<close> counts how many have been drawn.
\<close>

record scene =
  breakableItems :: "int \<times> int \<rightharpoonup> breakable_item"
  playerMaxHealth :: int
  invincibilityTime :: real
  playerInvincible :: bool
  tilemap_of :: tilemap
  wallsLayer :: layer
  itemsLayer :: layer
  player :: Player
  ui :: UI
  currentWave :: nat
  maxWaves :: nat
  enemies :: "nat list"
  heap :: "nat \<rightharpoonup> Enemy"
  nextIdent :: nat
  timers :: "(real \<times> callback) list"
  effects :: "effect list"
  rnd :: "nat \<Rightarrow> real"
  rnd_pos :: nat

fun submit :: "engine_call list \<Rightarrow> scene \<Rightarrow> scene" where
  "submit [] sc = sc"
| "submit (Schedule d cb # cs) sc = submit cs (sc\<lparr>timers := timers sc @ [(d, cb)]\<rparr>)"
| "submit (Present f # cs) sc = submit cs (sc\<lparr>effects := effects sc @ [f]\<rparr>)"

subsection \<open>Breakable items\<close>

text \<open>\<^verbatim>\<open>initBreakableItems()\<close>: \<^verbatim>\<open>forEachTile\<close> visits the tiles of the items layer.\<close>

fun initBreakableItems_loop :: "tile list \<Rightarrow> (int \<times> int \<rightharpoonup> breakable_item) \<Rightarrow> (int \<times> int \<rightharpoonup> breakable_item)" where
  "initBreakableItems_loop [] m = m"
| "initBreakableItems_loop (t # ts) m =
     initBreakableItems_loop ts
       (case properties t of
          None \<Rightarrow> m
        | Some pr \<Rightarrow>
            if breakable pr
            then m((tile_x t, tile_y t) \<mapsto>
                   \<lparr> item_tile = t, hits = 0, maxHits = 2, item_lastHitTime = 0 \<rparr>)
            else m)"

definition initBreakableItems :: "scene \<Rightarrow> scene" where
  "initBreakableItems sc =
     sc\<lparr>breakableItems := initBreakableItems_loop (itemsLayer sc) (breakableItems sc)\<rparr>"

text \<open>\<^verbatim>\<open>hitBreakableItem(tileKey)\<close>. \<open>now\<close> is \<^verbatim>\<open>this.time.now\<close>. A key without a record
  makes \<^verbatim>\<open>item\<close> undefined, and reading \<^verbatim>\<open>item.lastHitTime\<close> then throws.
  The guard \<^verbatim>\<open>item.lastHitTime && ...\<close> is skipped when the stored time is \<open>0\<close>.\<close>

definition hitBreakableItem :: "real \<Rightarrow> int \<times> int \<Rightarrow> scene \<Rightarrow> error + scene" where
  "hitBreakableItem now tileKey sc =
     (case breakableItems sc tileKey of
        None \<Rightarrow> Inl (Error ''TypeError: item is undefined'')
      | Some item \<Rightarrow>
          let (tileX, tileY) = tileKey in
          if item_lastHitTime item \<noteq> 0 \<and> now - item_lastHitTime item < 500 then Inr sc
          else
            let item1 = item\<lparr>item_lastHitTime := now\<rparr>;
                item2 = item1\<lparr>hits := hits item1 + 1\<rparr>;
                originalTint = tint (item_tile item2);
                item3 = item2\<lparr>item_tile := (item_tile item2)\<lparr>tint := 0xff0000\<rparr>\<rparr>;
                sc1 = sc\<lparr>breakableItems := (breakableItems sc)(tileKey \<mapsto> item3),
                        itemsLayer := setTintAt (tile_x (item_tile item3)) (tile_y (item_tile item3))
                                        0xff0000 (itemsLayer sc)\<rparr>;
                sc2 = submit [Schedule 100 (ItemTintReset tileKey originalTint),
                              Present (CameraShake 100 0.005)] sc1
            in if hits item3 \<ge> maxHits item3
               then
                 let sc3 = submit [Present (ItemExplosion tileX tileY)] sc2;
                     sc4 = sc3\<lparr>itemsLayer := removeTileAt tileX tileY (itemsLayer sc3)\<rparr>
                 in Inr (sc4\<lparr>breakableItems := (breakableItems sc4)(tileKey := None)\<rparr>)
               else Inr sc2)"

text \<open>\<^verbatim>\<open>checkSwordItemCollisions()\<close>. \<open>tiles\<close> is what \<^verbatim>\<open>getTilesWithinShape\<close>
  returns for the sword hitbox; \<open>checkedTiles\<close> is the set of keys seen in this call.\<close>

fun checkSwordItemCollisions_loop ::
  "real \<Rightarrow> tile option list \<Rightarrow> (int \<times> int) list \<Rightarrow> scene \<Rightarrow> error + scene" where
  "checkSwordItemCollisions_loop now [] checkedTiles sc = Inr sc"
| "checkSwordItemCollisions_loop now (None # ts) checkedTiles sc =
     checkSwordItemCollisions_loop now ts checkedTiles sc"
| "checkSwordItemCollisions_loop now (Some t # ts) checkedTiles sc =
     (if tile_index t = -1 then checkSwordItemCollisions_loop now ts checkedTiles sc
      else
        let tileKey = (tile_x t, tile_y t) in
        if tileKey \<in> set checkedTiles then checkSwordItemCollisions_loop now ts checkedTiles sc
        else if breakableItems sc tileKey \<noteq> None
        then (case hitBreakableItem now tileKey sc of
                Inl err \<Rightarrow> Inl err
              | Inr sc' \<Rightarrow> checkSwordItemCollisions_loop now ts (tileKey # checkedTiles) sc')
        else checkSwordItemCollisions_loop now ts (tileKey # checkedTiles) sc)"

definition checkSwordItemCollisions :: "real \<Rightarrow> tile option list \<Rightarrow> scene \<Rightarrow> error + scene" where
  "checkSwordItemCollisions now tiles sc =
     (if \<not> isAttacking (player sc) \<or> \<not> swordHitbox_enable (player sc) then Inr sc
      else checkSwordItemCollisions_loop now tiles [] sc)"


subsection \<open>Spawn points\<close>

text \<open>Engine arithmetic, on real numbers: \<^verbatim>\<open>Phaser.Math.Between(min, max)\<close> is
  \<^verbatim>\<open>Math.floor(Math.random() * (max - min + 1) + min)\<close>, here with the random value
  as an argument; \<^verbatim>\<open>Phaser.Math.Distance.Between\<close> is the Euclidean distance;
  \<^verbatim>\<open>Phaser.Math.Angle.Between(x1, y1, x2, y2)\<close> is \<^verbatim>\<open>Math.atan2(y2 - y1, x2 - x1)\<close>;
  \<^verbatim>\<open>worldToTileX\<close> divides by the tile width and rounds down.\<close>

definition Between :: "real \<Rightarrow> int \<Rightarrow> int \<Rightarrow> int" where
  "Between r lo hi = \<lfloor>r * of_int (hi - lo + 1) + of_int lo\<rfloor>"

definition Distance_Between :: "real \<Rightarrow> real \<Rightarrow> real \<Rightarrow> real \<Rightarrow> real" where
  "Distance_Between x1 y1 x2 y2 = sqrt ((x1 - x2)\<^sup>2 + (y1 - y2)\<^sup>2)"

definition atan2 :: "real \<Rightarrow> real \<Rightarrow> real" where
  "atan2 dy dx =
     (if dx > 0 then arctan (dy / dx)
      else if dx < 0 \<and> dy \<ge> 0 then arctan (dy / dx) + pi
      else if dx < 0 then arctan (dy / dx) - pi
      else if dy > 0 then pi / 2
      else if dy < 0 then - pi / 2
      else 0)"

definition Angle_Between :: "real \<Rightarrow> real \<Rightarrow> real \<Rightarrow> real \<Rightarrow> real" where
  "Angle_Between x1 y1 x2 y2 = atan2 (y2 - y1) (x2 - x1)"

definition worldToTileX :: "tilemap \<Rightarrow> int \<Rightarrow> int" where
  "worldToTileX m wx = wx div tileWidth m"

definition worldToTileY :: "tilemap \<Rightarrow> int \<Rightarrow> int" where
  "worldToTileY m wy = wy div tileHeight m"

text \<open>The local variables of \<^verbatim>\<open>getValidSpawnPoint()\<close>; \<open>x\<close> and \<open>y\<close> are declared
  without a value. \<open>cursor\<close> is the position in the random sequence.\<close>

record spawn_search =
  search_x :: "real option"
  search_y :: "real option"
  validPosition :: bool
  attempts :: nat
  cursor :: nat

text \<open>One pass through the body of the \<^verbatim>\<open>while\<close> loop.\<close>

definition spawn_attempt :: "scene \<Rightarrow> spawn_search \<Rightarrow> spawn_search" where
  "spawn_attempt sc st =
     (let mapWidth = widthInPixels (tilemap_of sc);
          mapHeight = heightInPixels (tilemap_of sc);
          minDistanceFromPlayer = 100;
          x = Between (rnd sc (cursor st)) 50 (mapWidth - 50);
          y = Between (rnd sc (cursor st + 1)) 50 (mapHeight - 50);
          distanceToPlayer =
            Distance_Between (of_int x) (of_int y) (player_x (player sc)) (player_y (player sc));
          tileX = worldToTileX (tilemap_of sc) x;
          tileY = worldToTileY (tilemap_of sc) y;
          wallTile = getTileAt (wallsLayer sc) tileX tileY;
          itemTile = getTileAt (itemsLayer sc) tileX tileY;
          wallFree = (case wallTile of
                        None \<Rightarrow> True
                      | Some w \<Rightarrow> (case properties w of None \<Rightarrow> True | Some pr \<Rightarrow> \<not> collides pr));
          itemFree = (case itemTile of
                        None \<Rightarrow> True
                      | Some w \<Rightarrow> (case properties w of None \<Rightarrow> True | Some pr \<Rightarrow> \<not> breakable pr))
      in st\<lparr> search_x := Some (of_int x), search_y := Some (of_int y),
             validPosition :=
               (if wallFree \<and> itemFree \<and> distanceToPlayer > minDistanceFromPlayer
                then True else validPosition st),
             attempts := attempts st + 1,
             cursor := cursor st + 2 \<rparr>)"

function spawn_search_loop :: "scene \<Rightarrow> spawn_search \<Rightarrow> spawn_search" where
  "spawn_search_loop sc st =
     (if \<not> validPosition st \<and> attempts st < 50
      then spawn_search_loop sc (spawn_attempt sc st)
      else st)"
  by pat_completeness auto
termination
  by (relation "measure (\<lambda>(sc, st). 50 - attempts st)") (auto simp: spawn_attempt_def Let_def)

declare spawn_search_loop.simps [simp del]

text \<open>The search up to the \<^verbatim>\<open>return\<close>: the loop, then the fallback when no attempt
  was valid.\<close>

definition spawn_search_init :: "scene \<Rightarrow> spawn_search" where
  "spawn_search_init sc =
     \<lparr> search_x = None, search_y = None, validPosition = False,
       attempts = 0, cursor = rnd_pos sc \<rparr>"

definition spawn_search_run :: "scene \<Rightarrow> spawn_search" where
  "spawn_search_run sc =
     (let st = spawn_search_loop sc (spawn_search_init sc)
      in if \<not> validPosition st
         then
           let angle = rnd sc (cursor st) * pi * 2
           in st\<lparr> search_x := Some (player_x (player sc) + cos angle * 150),
                  search_y := Some (player_y (player sc) + sin angle * 150),
                  cursor := cursor st + 1 \<rparr>
         else st)"

text \<open>\<^verbatim>\<open>getValidSpawnPoint()\<close> returns the object \<^verbatim>\<open>{ x, y }\<close>; the scene keeps the
  advanced position in the random sequence.\<close>

definition getValidSpawnPoint :: "scene \<Rightarrow> (real option \<times> real option) \<times> scene" where
  "getValidSpawnPoint sc =
     (let st = spawn_search_run sc
      in ((search_x st, search_y st), sc\<lparr>rnd_pos := cursor st\<rparr>))"

text \<open>The \<open>k\<close>-th pass of a search (counting from 0) taken on its own: it draws the
  random values \<open>2k\<close> and \<open>2k + 1\<close> after the scene's position. It is valid when it
  sets the flag.\<close>

definition attempt_at :: "scene \<Rightarrow> nat \<Rightarrow> spawn_search" where
  "attempt_at sc k =
     spawn_attempt sc ((spawn_search_init sc)\<lparr>attempts := k, cursor := rnd_pos sc + 2 * k\<rparr>)"

subsection \<open>Waves\<close>

definition enemyConfig :: enemy_config where
  "enemyConfig =
     \<lparr> cfg_texture = Some ''goblin'', cfg_frame = Some ''goblin_idle_anim_f0.png'',
       cfg_scale = Some 1.2, cfg_bodySizeFactor = Some 0.7, cfg_bodySizeFactorY = Some 0.9,
       cfg_drag = Some 0.0005, cfg_maxVelocity = Some 150, cfg_speed = Some 50,
       cfg_target = Some ThePlayer,
       cfg_anims = Some \<lparr> idleLeft = ''goblin-idle-left'', idleRight = ''goblin-idle-right'',
                          runLeft = ''goblin-run-left'', runRight = ''goblin-run-right'' \<rparr> \<rparr>"

text \<open>The handler that \<^verbatim>\<open>spawnEnemy\<close> registers for the enemy's \<^verbatim>\<open>'destroy'\<close> event.\<close>

definition onEnemyDestroy :: "nat \<Rightarrow> scene \<Rightarrow> scene" where
  "onEnemyDestroy enemy sc =
     (let sc1 = sc\<lparr>enemies := filter (\<lambda>e. e \<noteq> enemy) (enemies sc)\<rparr>
      in if length (enemies sc1) = 0 then submit [Schedule 1000 StartNextWaveCb] sc1 else sc1)"

text \<open>\<^verbatim>\<open>spawnEnemy(x, y)\<close>. The new object takes the next free identity. The colliders
  and the overlap it registers are the engine's later calls of \<^verbatim>\<open>playerHit\<close> and
  \<^verbatim>\<open>swordHit\<close> with this enemy.\<close>

definition spawnEnemy :: "real \<Rightarrow> real \<Rightarrow> scene \<Rightarrow> error + scene" where
  "spawnEnemy x y sc =
     (let i = nextIdent sc;
          (shown, r) = Enemy_new i x y (Some enemyConfig)
      in case r of
           Inl err \<Rightarrow> Inl err
         | Inr enemy \<Rightarrow>
             Inr (sc\<lparr> heap := (heap sc)(i \<mapsto> enemy), nextIdent := i + 1,
                      effects := effects sc @ shown,
                      enemies := enemies sc @ [i] \<rparr>))"

text \<open>\<^verbatim>\<open>displayWaveCounter()\<close> and \<^verbatim>\<open>showGameWon()\<close> put a text on the screen; the
  flashing and fading of the text touch nothing but the text and are left with it.\<close>

definition displayWaveCounter :: "scene \<Rightarrow> scene" where
  "displayWaveCounter sc = submit [Present (WaveText (currentWave sc) (maxWaves sc))] sc"

definition showGameWon :: "scene \<Rightarrow> scene" where
  "showGameWon sc = submit [Present VictoryText] sc"

text \<open>The \<^verbatim>\<open>for\<close> loop of \<^verbatim>\<open>startNextWave()\<close>, by the number of passes left. The spawn
  point's coordinates go to \<^verbatim>\<open>spawnEnemy\<close> as they are; a coordinate without a value
  (which \<open>getValidSpawnPoint\<close> never returns) has no number to stand for it here
  and ends the loop with an error.\<close>

fun spawn_loop :: "nat \<Rightarrow> scene \<Rightarrow> error + scene" where
  "spawn_loop 0 sc = Inr sc"
| "spawn_loop (Suc n) sc =
     (case getValidSpawnPoint sc of
        ((Some x, Some y), sc1) \<Rightarrow>
          (case spawnEnemy x y sc1 of
             Inl err \<Rightarrow> Inl err
           | Inr sc2 \<Rightarrow> spawn_loop n sc2)
      | (_, sc1) \<Rightarrow> Inl (Error ''spawn point without coordinates''))"

definition startNextWave :: "scene \<Rightarrow> error + scene" where
  "startNextWave sc =
     (let sc1 = sc\<lparr>currentWave := currentWave sc + 1\<rparr>
      in if currentWave sc1 > maxWaves sc1 then Inr (showGameWon sc1)
         else
           let enemiesToSpawn = currentWave sc1
           in case spawn_loop enemiesToSpawn sc1 of
                Inl err \<Rightarrow> Inl err
              | Inr sc2 \<Rightarrow> Inr (displayWaveCounter sc2))"


subsection \<open>Player damage and the two collision callbacks\<close>

text \<open>\<^verbatim>\<open>showGameOver()\<close> and \<^verbatim>\<open>playerDeath()\<close>; the tweens are kept as their
  duration and what runs on completion.\<close>

definition showGameOver :: "scene \<Rightarrow> scene" where
  "showGameOver sc =
     submit [Present GameOverText, Present PhysicsPause, Schedule 1000 RestartPromptCb] sc"

definition playerDeath :: "scene \<Rightarrow> scene" where
  "playerDeath sc =
     submit [Schedule 500 ShowGameOverCb]
       (sc\<lparr>player := (player sc)\<lparr>player_tint := Some 0xff0000\<rparr>\<rparr>)"

text \<open>\<^verbatim>\<open>damagePlayer()\<close>. The flashing is a timer event with \<^verbatim>\<open>repeat: 5\<close>: the
  callback \<open>PlayerFlash k\<close> has \<open>k\<close> repetitions left after it runs.\<close>

definition damagePlayer :: "scene \<Rightarrow> scene" where
  "damagePlayer sc =
     (if playerInvincible sc then sc
      else
        let sc1 = submit [Present (CameraShake 100 0.01)] sc;
            (newHealth, u, shake) = UI_damagePlayer 1 (ui sc1);
            sc2 = submit shake (sc1\<lparr>ui := u\<rparr>)
        in if newHealth \<le> 0 then playerDeath sc2
           else
             let sc3 = sc2\<lparr>playerInvincible := True\<rparr>;
                 sc4 = sc3\<lparr>player := (player sc3)\<lparr>player_alpha := 0.5\<rparr>\<rparr>;
                 sc5 = submit [Schedule 150 (PlayerFlash 5)] sc4
             in submit [Schedule (invincibilityTime sc5) ResetInvincible] sc5)"

text \<open>\<^verbatim>\<open>playerHit(player, enemy)\<close>, the collider callback for an enemy touching the
  player. The first argument is always the scene's player.\<close>

definition playerHit :: "Enemy \<Rightarrow> scene \<Rightarrow> scene" where
  "playerHit enemy sc =
     (let sc1 = submit [Schedule 100 PlayerClearTint]
                  (sc\<lparr>player := (player sc)\<lparr>player_tint := Some 0xff0000\<rparr>\<rparr>);
          angle = Angle_Between (enemy_x enemy) (enemy_y enemy)
                    (player_x (player sc1)) (player_y (player sc1));
          knockbackSpeed = 300;
          (p, calls) = knockback (cos angle * knockbackSpeed) (sin angle * knockbackSpeed)
                         (player sc1);
          sc2 = submit calls (sc1\<lparr>player := p\<rparr>);
          sc3 = submit [Present (HitEffect (player_x (player sc2) - cos angle * 10)
                                           (player_y (player sc2) - sin angle * 10))] sc2
      in damagePlayer sc3)"

text \<open>\<^verbatim>\<open>swordHit(swordHitbox, enemy)\<close>, the overlap callback for the sword hitbox.
  The enemy object is updated in the heap under its identity.\<close>

definition swordHit :: "int \<Rightarrow> Enemy \<Rightarrow> scene \<Rightarrow> scene" where
  "swordHit currentTime enemy sc =
     (let (hit, e', calls) = hitEnemy currentTime (player sc) enemy;
          sc1 = submit calls (sc\<lparr>heap := (heap sc)(ident enemy \<mapsto> e')\<rparr>)
      in if hit
         then
           let angle = Angle_Between (player_x (player sc1)) (player_y (player sc1))
                         (enemy_x e') (enemy_y e')
           in submit [Present (CameraShake 100 0.005),
                      Present (HitEffect (enemy_x e' - cos angle * 10)
                                         (enemy_y e' - sin angle * 10))] sc1
         else sc1)"

subsection \<open>Callbacks run by the engine\<close>

definition update_enemy :: "nat \<Rightarrow> (Enemy \<Rightarrow> Enemy) \<Rightarrow> scene \<Rightarrow> scene" where
  "update_enemy i f sc =
     (case heap sc i of None \<Rightarrow> sc | Some e \<Rightarrow> sc\<lparr>heap := (heap sc)(i \<mapsto> f e)\<rparr>)"

text \<open>What each scheduled callback does when the engine runs it. The completion of
  the death tween calls \<^verbatim>\<open>this.destroy()\<close>, which emits \<^verbatim>\<open>'destroy'\<close> once and so
  runs the handler of \<^verbatim>\<open>spawnEnemy\<close>. The tint reset of a tile writes through the
  record the closure holds; once the record has left the map the write is not
  observable any more.\<close>

fun run_callback :: "callback \<Rightarrow> scene \<Rightarrow> error + scene" where
  "run_callback (EnemyStunClear i) sc = Inr (update_enemy i (\<lambda>e. e\<lparr>stunned := False\<rparr>) sc)"
| "run_callback (EnemyClearTint i) sc = Inr (update_enemy i (\<lambda>e. e\<lparr>enemy_tint := None\<rparr>) sc)"
| "run_callback (EnemyDestroy i) sc = Inr (onEnemyDestroy i sc)"
| "run_callback StartNextWaveCb sc = startNextWave sc"
| "run_callback ResetInvincible sc =
     Inr (sc\<lparr>playerInvincible := False, player := (player sc)\<lparr>player_alpha := 1\<rparr>\<rparr>)"
| "run_callback (PlayerFlash k) sc =
     (let sc1 = sc\<lparr>player := (player sc)\<lparr>player_alpha :=
                                   (if player_alpha (player sc) = 1 then 0.5 else 1)\<rparr>\<rparr>
      in Inr (if k > 0 then submit [Schedule 150 (PlayerFlash (k - 1))] sc1 else sc1))"
| "run_callback PlayerClearTint sc = Inr (sc\<lparr>player := (player sc)\<lparr>player_tint := None\<rparr>\<rparr>)"
| "run_callback PlayerKnockbackReset sc =
     Inr (sc\<lparr>player := (player sc)\<lparr>isKnockedBack := False\<rparr>\<rparr>)"
| "run_callback ShowGameOverCb sc = Inr (showGameOver sc)"
| "run_callback RestartPromptCb sc = Inr (submit [Present RestartText] sc)"
| "run_callback (ItemTintReset tileKey originalTint) sc =
     Inr (case breakableItems sc tileKey of
            None \<Rightarrow> sc
          | Some item \<Rightarrow>
              sc\<lparr>breakableItems := (breakableItems sc)(tileKey \<mapsto>
                     item\<lparr>item_tile := (item_tile item)\<lparr>tint := originalTint\<rparr>\<rparr>),
                 itemsLayer := setTintAt (tile_x (item_tile item)) (tile_y (item_tile item))
                                 originalTint (itemsLayer sc)\<rparr>)"

text \<open>The engine takes the \<open>n\<close>-th pending callback off its list and runs it.\<close>

definition fire :: "nat \<Rightarrow> scene \<Rightarrow> error + scene" where
  "fire n sc =
     (if n < length (timers sc)
      then run_callback (snd (timers sc ! n))
             (sc\<lparr>timers := take n (timers sc) @ drop (Suc n) (timers sc)\<rparr>)
      else Inr sc)"

subsection \<open>Scene creation and the runs of the scene\<close>

text \<open>The scene's constructor followed by \<^verbatim>\<open>create()\<close>, for a given tile map, its wall
  and item layers and a random sequence: first every field the two assign, then the
  two calls \<^verbatim>\<open>create()\<close> makes on them. The user interface starts with
  \<^verbatim>\<open>playerMaxHealth\<close>. The presentation set-up (animations, torches, camera) is left
  out.\<close>

definition fresh_scene :: "tilemap \<Rightarrow> layer \<Rightarrow> layer \<Rightarrow> (nat \<Rightarrow> real) \<Rightarrow> scene" where
  "fresh_scene m walls items r =
     \<lparr> breakableItems = Map.empty, playerMaxHealth = 5, invincibilityTime = 1000,
       playerInvincible = False, tilemap_of = m, wallsLayer = walls,
       itemsLayer = items, player = Player_new 100 280, ui = UI_new 5,
       currentWave = 0, maxWaves = 5, enemies = [], heap = Map.empty,
       nextIdent = 0, timers = [], effects = [], rnd = r, rnd_pos = 0 \<rparr>"

definition create :: "tilemap \<Rightarrow> layer \<Rightarrow> layer \<Rightarrow> (nat \<Rightarrow> real) \<Rightarrow> error + scene" where
  "create m walls items r = startNextWave (initBreakableItems (fresh_scene m walls items r))"

text \<open>
  The states the scene can be in. After creation the engine drives the scene: it runs a
  pending callback (in any order here, which covers the engine's order); it reports the
  sword hitbox overlapping, or the player touching, an enemy that has not been
  destroyed (a destroyed enemy has left the physics world, and it has left \<open>enemies\<close>
  by the handler above); it runs the scene's \<^verbatim>\<open>update()\<close>, which checks the sword
  against the item tiles. Everything else the frame does (input, the player's own
  \<^verbatim>\<open>update()\<close> and \<^verbatim>\<open>attack()\<close>, the enemies' steering, the physics step, the
  user interface) writes only the player object, the enemies' position, velocity and
  facing, the effect log and the interface object; the last four rules allow any such
  write. Restarting the scene is outside.
\<close>

inductive reachable :: "scene \<Rightarrow> bool" where
  created: "create m walls items r = Inr sc \<Longrightarrow> reachable sc"
| timer: "reachable sc \<Longrightarrow> n < length (timers sc) \<Longrightarrow> fire n sc = Inr sc' \<Longrightarrow> reachable sc'"
| sword: "reachable sc \<Longrightarrow> i \<in> set (enemies sc) \<Longrightarrow> heap sc i = Some e \<Longrightarrow>
          reachable (swordHit t e sc)"
| touch: "reachable sc \<Longrightarrow> i \<in> set (enemies sc) \<Longrightarrow> heap sc i = Some e \<Longrightarrow>
          reachable (playerHit e sc)"
| items: "reachable sc \<Longrightarrow> checkSwordItemCollisions now tiles sc = Inr sc' \<Longrightarrow> reachable sc'"
| player_acts: "reachable sc \<Longrightarrow> reachable (sc\<lparr>player := p\<rparr>)"
| enemy_moves: "reachable sc \<Longrightarrow> heap sc i = Some e \<Longrightarrow>
          reachable (sc\<lparr>heap := (heap sc)(i \<mapsto>
             e\<lparr>enemy_x := ex, enemy_y := ey, velocity_x := vx, velocity_y := vy,
               currentDirection := d\<rparr>)\<rparr>)"
| shown: "reachable sc \<Longrightarrow> reachable (sc\<lparr>effects := effects sc @ fx\<rparr>)"
| ui_acts: "reachable sc \<Longrightarrow> reachable (sc\<lparr>ui := u\<rparr>)"


subsection \<open>Sample states\<close>

text \<open>A 20 by 20 map of 16-pixel tiles without walls, one breakable tile at grid
  position (3, 4), and a random source that always returns 0; the scene as
  \<^verbatim>\<open>create()\<close> has it just before it starts the first wave; and an enemy as
  \<^verbatim>\<open>spawnEnemy\<close> constructs it.\<close>

definition demo_map :: tilemap where
  "demo_map = \<lparr> widthInPixels = 320, heightInPixels = 320, tileWidth = 16, tileHeight = 16 \<rparr>"

definition crate :: tile where
  "crate = \<lparr> tile_x = 3, tile_y = 4, tile_index = 7,
             properties = Some \<lparr> collides = False, breakable = True \<rparr>, tint = 0xffffff \<rparr>"

definition arena :: scene where
  "arena = initBreakableItems (fresh_scene demo_map [] [crate] (\<lambda>_. 0))"

definition goblin :: Enemy where
  "goblin = projr (snd (Enemy_new 0 50 50 (Some enemyConfig)))"


text \<open>The scene after the enemy has touched the player once and the engine has run the
  first two callbacks of that touch (the 100 ms tint reset and the 300 ms end of the
  knockback); the 1000 ms of invincibility are still running.\<close>

definition touched :: scene where
  "touched = projr (fire 0 (projr (fire 0 (playerHit goblin arena))))"


text \<open>Calling \<^verbatim>\<open>startNextWave()\<close> a number of times in a row, stopping at an error.\<close>

fun startNextWave_repeat :: "nat \<Rightarrow> scene \<Rightarrow> error + scene" where
  "startNextWave_repeat 0 sc = Inr sc"
| "startNextWave_repeat (Suc k) sc =
     (case startNextWave sc of Inl err \<Rightarrow> Inl err | Inr sc' \<Rightarrow> startNextWave_repeat k sc')"

subsection \<open>The wave invariant\<close>

text \<open>The callbacks an engine-call list schedules, with their delays.\<close>

fun scheduled :: "engine_call list \<Rightarrow> (real \<times> callback) list" where
  "scheduled [] = []"
| "scheduled (Schedule d cb # cs) = (d, cb) # scheduled cs"
| "scheduled (Present f # cs) = scheduled cs"

text \<open>Two kinds of pending callbacks bear on the waves: the start of the next wave and
  the destruction of an enemy at the end of its death tween.\<close>

fun wave_callback :: "callback \<Rightarrow> bool" where
  "wave_callback StartNextWaveCb = True"
| "wave_callback (EnemyDestroy i) = True"
| "wave_callback cb = False"

definition wave_timers :: "scene \<Rightarrow> (real \<times> callback) list" where
  "wave_timers sc = filter (\<lambda>t. wave_callback (snd t)) (timers sc)"

text \<open>What holds of the wave state throughout a run: the registered enemies are
  distinct objects created earlier; an object sits in the heap under its own identity;
  no wave callback is pending twice; the next wave is pending only with a delay of
  1000 ms and an empty enemy list; a destruction is pending only for a registered
  enemy that is dying.\<close>

definition wave_inv :: "scene \<Rightarrow> bool" where
  "wave_inv sc \<longleftrightarrow>
     distinct (enemies sc)
   \<and> (\<forall>i \<in> set (enemies sc). i < nextIdent sc)
   \<and> (\<forall>i e. heap sc i = Some e \<longrightarrow> ident e = i)
   \<and> distinct (map snd (wave_timers sc))
   \<and> (\<forall>d. (d, StartNextWaveCb) \<in> set (wave_timers sc) \<longrightarrow> d = 1000 \<and> enemies sc = [])
   \<and> (\<forall>d i. (d, EnemyDestroy i) \<in> set (wave_timers sc) \<longrightarrow>
          d = 500 \<and> i \<in> set (enemies sc) \<and> (\<exists>e. heap sc i = Some e \<and> isDying e))"

text \<open>A sample run: the scene as created, with its first wave; the player attacking;
  the enemy of the first wave struck at the given clock readings; and the scene after
  three accepted strikes and the end of the enemy's death tween.\<close>

definition wave1 :: scene where
  "wave1 = projr (create demo_map [] [crate] (\<lambda>_. 0))"

definition armed :: scene where
  "armed = wave1\<lparr>player := (player wave1)\<lparr>isAttacking := True, swordHitbox_enable := True\<rparr>\<rparr>"

fun strikes :: "int list \<Rightarrow> scene \<Rightarrow> scene" where
  "strikes [] sc = sc"
| "strikes (t # ts) sc =
     strikes ts (case heap sc 0 of None \<Rightarrow> sc | Some e \<Rightarrow> swordHit t e sc)"

definition cleared :: scene where
  "cleared = projr (fire 4 (strikes [1000, 2000, 3000] armed))"

section \<open>Properties of the enemy and of the sword hit\<close>

lemma takeDamage_rejected:
  "isDying e \<or> t - lastHitTime e < hitCooldown e \<Longrightarrow> takeDamage t d e = (False, e, [])"
  by (auto simp: takeDamage_def)

lemma takeDamage_accepted:
  "\<not> isDying e \<Longrightarrow> hitCooldown e \<le> t - lastHitTime e \<Longrightarrow>
   takeDamage t d e =
     (if hitsTaken e + 1 \<ge> hitsToKill e
      then (True,
            e\<lparr>lastHitTime := t, hitsTaken := hitsTaken e + 1, isDying := True,
              body_enable := False\<rparr>,
            [Present (DeathExplosion (enemy_x e) (enemy_y e)),
             Schedule 500 (EnemyDestroy (ident e))])
      else (False, e\<lparr>lastHitTime := t, hitsTaken := hitsTaken e + 1\<rparr>, []))"
  by (simp add: takeDamage_def die_def Let_def)

text \<open>One call of the code against one call of the rule.\<close>

lemma takeDamage_spec_hit:
  assumes "hitCooldown e = 500" and "hitsToKill e = 3"
  shows "\<exists>e' calls. takeDamage t d e =
            (fst (spec_hit t (isDying e, lastHitTime e, hitsTaken e)), e', calls)
       \<and> (isDying e', lastHitTime e', hitsTaken e') =
            snd (spec_hit t (isDying e, lastHitTime e, hitsTaken e))
       \<and> hitCooldown e' = 500 \<and> hitsToKill e' = 3"
proof (cases "isDying e \<or> t - lastHitTime e < 500")
  case True
  then have "takeDamage t d e = (False, e, [])"
    using takeDamage_rejected[of e t d] assms(1) by simp
  then show ?thesis using True assms by (auto simp: spec_hit_def)
next
  case False
  then have "\<not> isDying e" "hitCooldown e \<le> t - lastHitTime e" using assms(1) by simp_all
  from takeDamage_accepted[OF this, of d] show ?thesis
    using False assms by (cases "hitsTaken e + 1 \<ge> 3") (simp_all add: spec_hit_def)
qed

lemma takeDamage_calls_spec_hits:
  "hitCooldown e = 500 \<Longrightarrow> hitsToKill e = 3 \<Longrightarrow>
   fst (takeDamage_calls cs e) = fst (spec_hits (map fst cs) (isDying e, lastHitTime e, hitsTaken e))
 \<and> (isDying (snd (takeDamage_calls cs e)), lastHitTime (snd (takeDamage_calls cs e)),
     hitsTaken (snd (takeDamage_calls cs e)))
     = snd (spec_hits (map fst cs) (isDying e, lastHitTime e, hitsTaken e))"
proof (induction cs arbitrary: e)
  case Nil
  then show ?case by simp
next
  case (Cons c cs)
  obtain t d where c: "c = (t, d)" by (cases c)
  obtain e' calls where td:
    "takeDamage t d e = (fst (spec_hit t (isDying e, lastHitTime e, hitsTaken e)), e', calls)"
    "(isDying e', lastHitTime e', hitsTaken e') =
       snd (spec_hit t (isDying e, lastHitTime e, hitsTaken e))"
    "hitCooldown e' = 500" "hitsToKill e' = 3"
    using takeDamage_spec_hit[OF Cons.prems, of t d] by blast
  note ih = Cons.IH[OF td(3,4)]
  obtain k st' where sh: "spec_hit t (isDying e, lastHitTime e, hitsTaken e) = (k, st')"
    by (cases "spec_hit t (isDying e, lastHitTime e, hitsTaken e)")
  have st': "st' = (isDying e', lastHitTime e', hitsTaken e')" using td(2) sh by simp
  show ?case using ih td(1) sh unfolding c st' by (auto split: prod.splits)
qed

lemma goblin_fields:
  "ident goblin = 0" "hitCooldown goblin = 500" "hitsToKill goblin = 3" "hitsTaken goblin = 0"
  "lastHitTime goblin = 0" "\<not> isDying goblin" "\<not> stunned goblin"
  "enemy_x goblin = 50" "enemy_y goblin = 50" "enemy_tint goblin = None"
  by (simp_all add: goblin_def Enemy_new_def enemyConfig_def truthy_str_def)

text \<open>
  Claim C1. For an enemy as the constructor makes it (hit cooldown 500 ms, three hits
  to kill), at any point of any sequence of \<^verbatim>\<open>takeDamage\<close> calls. A call on a dying
  enemy, or less than 500 ms after \<open>lastHitTime\<close>, returns \<open>False\<close> and leaves the
  enemy exactly as it was, stored time included. Any other call is accepted: it stores
  its clock reading in \<open>lastHitTime\<close>, so that this field is the time of the last
  accepted hit, raises the counter by one and changes nothing else, unless it is the
  third hit, which also makes the enemy dying, disables its body, starts the death
  sequence and returns \<open>True\<close>. Hence the counter goes up by one exactly when the enemy
  is not dying and the clock is at least 500 ms past the last accepted hit. Over a whole
  sequence of calls the returned flags, the counter, the stored time and the dying
  flag are those the rule of the specification gives on the clock readings alone.
  After a hit accepted at time \<open>t\<close>, a call at \<open>t + 100\<close> is rejected and a call at
  \<open>t + 600\<close> is counted (unless the accepted hit was the killing one).
\<close>

theorem takeDamage_hit_counter:
  assumes "hitCooldown e = 500" and "hitsToKill e = 3"
  shows "hitsTaken (fst (snd (takeDamage t d e))) =
           hitsTaken e + (if \<not> isDying e \<and> t - lastHitTime e \<ge> 500 then 1 else 0)
       \<and> (isDying e \<or> t - lastHitTime e < 500 \<longrightarrow> takeDamage t d e = (False, e, []))
       \<and> (\<not> isDying e \<and> t - lastHitTime e \<ge> 500 \<longrightarrow>
            takeDamage t d e =
              (if hitsTaken e + 1 \<ge> 3
               then (True,
                     e\<lparr>lastHitTime := t, hitsTaken := hitsTaken e + 1, isDying := True,
                       body_enable := False\<rparr>,
                     [Present (DeathExplosion (enemy_x e) (enemy_y e)),
                      Schedule 500 (EnemyDestroy (ident e))])
               else (False, e\<lparr>lastHitTime := t, hitsTaken := hitsTaken e + 1\<rparr>, [])))
       \<and> fst (takeDamage_calls cs e) =
            fst (spec_hits (map fst cs) (isDying e, lastHitTime e, hitsTaken e))
       \<and> (isDying (snd (takeDamage_calls cs e)), lastHitTime (snd (takeDamage_calls cs e)),
           hitsTaken (snd (takeDamage_calls cs e)))
           = snd (spec_hits (map fst cs) (isDying e, lastHitTime e, hitsTaken e))
       \<and> (\<forall>e' d'. hit_counts t e \<and> e' = fst (snd (takeDamage t d e)) \<longrightarrow>
             lastHitTime e' = t
           \<and> takeDamage (t + 100) d' e' = (False, e', [])
           \<and> hitsTaken (fst (snd (takeDamage (t + 600) d' e'))) =
               hitsTaken e' + (if isDying e' then 0 else 1))"
proof -
  have rej: "isDying e \<or> t - lastHitTime e < 500 \<longrightarrow> takeDamage t d e = (False, e, [])"
    using takeDamage_rejected[of e t d] assms(1) by simp
  have acc: "\<not> isDying e \<and> t - lastHitTime e \<ge> 500 \<longrightarrow>
            takeDamage t d e =
              (if hitsTaken e + 1 \<ge> 3
               then (True,
                     e\<lparr>lastHitTime := t, hitsTaken := hitsTaken e + 1, isDying := True,
                       body_enable := False\<rparr>,
                     [Present (DeathExplosion (enemy_x e) (enemy_y e)),
                      Schedule 500 (EnemyDestroy (ident e))])
               else (False, e\<lparr>lastHitTime := t, hitsTaken := hitsTaken e + 1\<rparr>, []))"
    using takeDamage_accepted[of e t d] assms by simp
  have a: "hitsTaken (fst (snd (takeDamage t d e))) =
           hitsTaken e + (if \<not> isDying e \<and> t - lastHitTime e \<ge> 500 then 1 else 0)"
  proof (cases "\<not> isDying e \<and> t - lastHitTime e \<ge> 500")
    case True
    then show ?thesis using acc by (simp split: if_splits)
  next
    case False
    then have "takeDamage t d e = (False, e, [])" using rej by auto
    then show ?thesis using False by simp
  qed
  note seq = takeDamage_calls_spec_hits[OF assms, of cs]
  have d: "\<forall>e' d'. hit_counts t e \<and> e' = fst (snd (takeDamage t d e)) \<longrightarrow>
             lastHitTime e' = t
           \<and> takeDamage (t + 100) d' e' = (False, e', [])
           \<and> hitsTaken (fst (snd (takeDamage (t + 600) d' e'))) =
               hitsTaken e' + (if isDying e' then 0 else 1)"
    using assms by (auto simp: hit_counts_def takeDamage_def die_def Let_def)
  show ?thesis using a rej acc seq d by blast
qed

theorem takeDamage_hit_counter_witness:
  "hitCooldown goblin = 500 \<and> hitsToKill goblin = 3 \<and> hit_counts 1000 goblin
   \<and> hitsTaken (fst (snd (takeDamage 1000 10 goblin))) = 1
   \<and> takeDamage 1100 10 (fst (snd (takeDamage 1000 10 goblin)))
       = (False, fst (snd (takeDamage 1000 10 goblin)), [])
   \<and> hitsTaken (fst (snd (takeDamage 1600 10 (fst (snd (takeDamage 1000 10 goblin)))))) = 2
   \<and> fst (takeDamage_calls [(1000, 10), (1300, 10), (1600, 10)] goblin) = [False, False, False]
   \<and> hitsTaken (snd (takeDamage_calls [(1000, 10), (1300, 10), (1600, 10)] goblin)) = 2
   \<and> lastHitTime (snd (takeDamage_calls [(1000, 10), (1300, 10), (1600, 10)] goblin)) = 1600
   \<and> hitsTaken (snd (takeDamage_calls [(1000, 10), (1300, 10), (1400, 10)] goblin)) = 1
   \<and> fst (takeDamage_calls [(1000, 10), (1500, 10), (2000, 10), (2500, 10)] goblin)
       = [False, False, True, False]
   \<and> isDying (goblin\<lparr>isDying := True\<rparr>)
   \<and> takeDamage 1000 10 (goblin\<lparr>isDying := True\<rparr>) = (False, goblin\<lparr>isDying := True\<rparr>, [])"
proof -
  have cd: "hitCooldown goblin = 500" and hk: "hitsToKill goblin = 3"
    by (simp_all add: goblin_fields)
  have hc: "hit_counts 1000 goblin" by (simp add: hit_counts_def goblin_fields)
  have st: "(isDying goblin, lastHitTime goblin, hitsTaken goblin) = (False, 0, 0)"
    by (simp add: goblin_fields)
  note live = takeDamage_hit_counter[OF cd hk, of 1000 10]
  have "hitsTaken (fst (snd (takeDamage 1000 10 goblin))) =
          hitsTaken goblin + (if \<not> isDying goblin \<and> 1000 - lastHitTime goblin \<ge> 500 then 1 else 0)"
    using live by (rule conjunct1)
  then have one: "hitsTaken (fst (snd (takeDamage 1000 10 goblin))) = 1"
    by (simp add: goblin_fields)
  have after: "takeDamage (1000 + 100) 10 (fst (snd (takeDamage 1000 10 goblin)))
                 = (False, fst (snd (takeDamage 1000 10 goblin)), [])
             \<and> hitsTaken (fst (snd (takeDamage (1000 + 600) 10 (fst (snd (takeDamage 1000 10 goblin)))))) =
                 hitsTaken (fst (snd (takeDamage 1000 10 goblin)))
                 + (if isDying (fst (snd (takeDamage 1000 10 goblin))) then 0 else 1)"
    using live hc by blast
  have nd: "\<not> isDying (fst (snd (takeDamage 1000 10 goblin)))"
    by (simp add: takeDamage_def goblin_fields)
  have two: "hitsTaken (fst (snd (takeDamage 1600 10 (fst (snd (takeDamage 1000 10 goblin)))))) = 2"
    using after one nd by simp
  have s1: "fst (takeDamage_calls [(1000, 10), (1300, 10), (1600, 10)] goblin) = [False, False, False]
      \<and> (isDying (snd (takeDamage_calls [(1000, 10), (1300, 10), (1600, 10)] goblin)),
         lastHitTime (snd (takeDamage_calls [(1000, 10), (1300, 10), (1600, 10)] goblin)),
         hitsTaken (snd (takeDamage_calls [(1000, 10), (1300, 10), (1600, 10)] goblin)))
        = (False, 1600, 2)"
    using takeDamage_hit_counter[OF cd hk, of 1000 10 "[(1000, 10), (1300, 10), (1600, 10)]"]
    unfolding st by (simp add: spec_hit_def)
  have s2: "(isDying (snd (takeDamage_calls [(1000, 10), (1300, 10), (1400, 10)] goblin)),
         lastHitTime (snd (takeDamage_calls [(1000, 10), (1300, 10), (1400, 10)] goblin)),
         hitsTaken (snd (takeDamage_calls [(1000, 10), (1300, 10), (1400, 10)] goblin)))
        = (False, 1000, 1)"
    using takeDamage_hit_counter[OF cd hk, of 1000 10 "[(1000, 10), (1300, 10), (1400, 10)]"]
    unfolding st by (simp add: spec_hit_def)
  have s3: "fst (takeDamage_calls [(1000, 10), (1500, 10), (2000, 10), (2500, 10)] goblin)
       = [False, False, True, False]"
    using takeDamage_hit_counter[OF cd hk, of 1000 10 "[(1000, 10), (1500, 10), (2000, 10), (2500, 10)]"]
    unfolding st by (simp add: spec_hit_def)
  have cd': "hitCooldown (goblin\<lparr>isDying := True\<rparr>) = 500"
    and hk': "hitsToKill (goblin\<lparr>isDying := True\<rparr>) = 3" by (simp_all add: goblin_fields)
  have dying: "takeDamage 1000 10 (goblin\<lparr>isDying := True\<rparr>) = (False, goblin\<lparr>isDying := True\<rparr>, [])"
    using takeDamage_hit_counter[OF cd' hk', of 1000 10 "[]"] by simp
  show ?thesis using cd hk hc one after two s1 s2 s3 dying by simp
qed

text \<open>
  Claim C4. While the player is attacking, with the knockback force 200 the constructor
  sets, \<^verbatim>\<open>hitEnemy\<close> leaves the enemy with a velocity of magnitude 200 along the axis
  of the attack direction and 0 on the other axis, whatever the enemy's position and
  state: attacking up gives the velocity (0, -200).
\<close>

theorem hitEnemy_knockback:
  assumes "isAttacking p" and "knockbackForce p = 200"
  shows "(velocity_x (fst (snd (hitEnemy t p e))), velocity_y (fst (snd (hitEnemy t p e)))) =
           (case attackDirection p of
              Left \<Rightarrow> (-200, 0) | Right \<Rightarrow> (200, 0) | Up \<Rightarrow> (0, -200) | Down \<Rightarrow> (0, 200))
         \<and> (attackDirection p = Up \<longrightarrow>
              velocity_x (fst (snd (hitEnemy t p e))) = 0
            \<and> velocity_y (fst (snd (hitEnemy t p e))) = -200)"
  using assms
  by (cases "attackDirection p")
     (simp_all add: hitEnemy_def takeDamage_def die_def Let_def split: prod.splits)

theorem hitEnemy_knockback_witness:
  "isAttacking ((Player_new 100 280)\<lparr>isAttacking := True, attackDirection := Up\<rparr>)
   \<and> knockbackForce ((Player_new 100 280)\<lparr>isAttacking := True, attackDirection := Up\<rparr>) = 200
   \<and> velocity_x (fst (snd (hitEnemy 1000
        ((Player_new 100 280)\<lparr>isAttacking := True, attackDirection := Up\<rparr>)
        (goblin\<lparr>enemy_x := 300, enemy_y := 280\<rparr>)))) = 0
   \<and> velocity_y (fst (snd (hitEnemy 1000
        ((Player_new 100 280)\<lparr>isAttacking := True, attackDirection := Up\<rparr>)
        (goblin\<lparr>enemy_x := 300, enemy_y := 280\<rparr>)))) = -200"
  using hitEnemy_knockback[of "(Player_new 100 280)\<lparr>isAttacking := True, attackDirection := Up\<rparr>"
          1000 "goblin\<lparr>enemy_x := 300, enemy_y := 280\<rparr>"]
  by (simp add: Player_new_def)

lemma timers_submit [simp]: "timers (submit cs sc) = timers sc @ scheduled cs"
  by (induction cs sc rule: submit.induct) simp_all

lemma heap_submit [simp]: "heap (submit cs sc) = heap sc"
  by (induction cs sc rule: submit.induct) simp_all

lemma scheduled_append [simp]: "scheduled (a @ b) = scheduled a @ scheduled b"
  by (induction a rule: scheduled.induct) simp_all

text \<open>What an attacking player's sword hit leaves behind.\<close>

lemma hitEnemy_attacking:
  assumes "isAttacking p"
  shows "\<exists>e' c3. hitEnemy t p e =
           (True, e',
            (if stunned e then [] else [Schedule 500 (EnemyStunClear (ident e))])
            @ [Schedule 150 (EnemyClearTint (ident e))] @ c3)
       \<and> (c3 = [] \<or> c3 = [Present (DeathExplosion (enemy_x e) (enemy_y e)),
                            Schedule 500 (EnemyDestroy (ident e))])
       \<and> ident e' = ident e
       \<and> velocity_x e' = (case attackDirection p of Left \<Rightarrow> - knockbackForce p
                            | Right \<Rightarrow> knockbackForce p | _ \<Rightarrow> 0)
       \<and> velocity_y e' = (case attackDirection p of Up \<Rightarrow> - knockbackForce p
                            | Down \<Rightarrow> knockbackForce p | _ \<Rightarrow> 0)
       \<and> stunned e' \<and> enemy_tint e' = Some 0xff0000
       \<and> (isDying e \<or> t - lastHitTime e < hitCooldown e \<longrightarrow>
            c3 = [] \<and> hitsTaken e' = hitsTaken e \<and> lastHitTime e' = lastHitTime e
            \<and> isDying e' = isDying e)"
  using assms
  by (cases "attackDirection p"; cases "stunned e")
     (auto simp: hitEnemy_def takeDamage_def die_def Let_def)

text \<open>
  Claim C10. While the player is attacking, \<^verbatim>\<open>hitEnemy\<close> returns \<open>True\<close>, sets the
  enemy's velocity to the knockback vector, leaves it stunned, tints it red and hands
  the engine, in this order, the 500 ms stun clear (exactly when the enemy was not
  stunned before), the 150 ms tint clear and whatever \<^verbatim>\<open>takeDamage\<close> issues, for
  every enemy and every clock reading; when \<^verbatim>\<open>takeDamage\<close> rejects the hit for the
  cooldown or because the enemy is dying, the counter, the stored time and the dying
  flag stay and nothing more is issued. Run on the enemy as the hit left it, the stun
  clear resets \<open>stunned\<close> and the tint clear removes the tint, and that is what the
  engine does through the scene's sword-overlap callback when it runs the two callbacks
  this hit scheduled. While the player is not attacking the call returns \<open>False\<close>,
  leaves the enemy as it is and issues no engine call.
\<close>

theorem hitEnemy_always_hits:
  "(isAttacking p \<longrightarrow>
      (let r = hitEnemy t p e; e' = fst (snd r) in
         fst r = True
       \<and> velocity_x e' = (case attackDirection p of Left \<Rightarrow> - knockbackForce p
                            | Right \<Rightarrow> knockbackForce p | _ \<Rightarrow> 0)
       \<and> velocity_y e' = (case attackDirection p of Up \<Rightarrow> - knockbackForce p
                            | Down \<Rightarrow> knockbackForce p | _ \<Rightarrow> 0)
       \<and> stunned e'
       \<and> enemy_tint e' = Some 0xff0000
       \<and> ident e' = ident e
       \<and> (\<exists>c3. snd (snd r) =
              (if stunned e then [] else [Schedule 500 (EnemyStunClear (ident e))])
              @ [Schedule 150 (EnemyClearTint (ident e))] @ c3
            \<and> (c3 = [] \<or> c3 = [Present (DeathExplosion (enemy_x e) (enemy_y e)),
                                 Schedule 500 (EnemyDestroy (ident e))]))
       \<and> Schedule 150 (EnemyClearTint (ident e)) \<in> set (snd (snd r))
       \<and> (\<not> stunned e \<longrightarrow> Schedule 500 (EnemyStunClear (ident e)) \<in> set (snd (snd r)))
       \<and> (stunned e \<longrightarrow> Schedule 500 (EnemyStunClear (ident e)) \<notin> set (snd (snd r)))
       \<and> (isDying e \<or> t - lastHitTime e < hitCooldown e \<longrightarrow>
            hitsTaken e' = hitsTaken e \<and> lastHitTime e' = lastHitTime e
          \<and> isDying e' = isDying e)
       \<and> (\<forall>sc. heap sc (ident e) = Some e' \<longrightarrow>
             run_callback (EnemyStunClear (ident e)) sc =
               Inr (sc\<lparr>heap := (heap sc)(ident e \<mapsto> e'\<lparr>stunned := False\<rparr>)\<rparr>)
           \<and> run_callback (EnemyClearTint (ident e)) sc =
               Inr (sc\<lparr>heap := (heap sc)(ident e \<mapsto> e'\<lparr>enemy_tint := None\<rparr>)\<rparr>))
       \<and> (\<forall>sc. player sc = p \<longrightarrow>
             heap (swordHit t e sc) (ident e) = Some e'
           \<and> timers (swordHit t e sc) = timers sc @ scheduled (snd (snd r))
           \<and> (\<not> stunned e \<longrightarrow>
                (\<exists>s'. fire (length (timers sc)) (swordHit t e sc) = Inr s'
                    \<and> heap s' (ident e) = Some (e'\<lparr>stunned := False\<rparr>)))
           \<and> (\<exists>s'. fire (length (timers sc) + (if stunned e then 0 else 1))
                       (swordHit t e sc) = Inr s'
                    \<and> heap s' (ident e) = Some (e'\<lparr>enemy_tint := None\<rparr>)))))
   \<and> (\<not> isAttacking p \<longrightarrow> hitEnemy t p e = (False, e, []))"
proof (cases "isAttacking p")
  case False
  then show ?thesis by (simp add: hitEnemy_def)
next
  case True
  obtain e' c3 where h: "hitEnemy t p e =
           (True, e',
            (if stunned e then [] else [Schedule 500 (EnemyStunClear (ident e))])
            @ [Schedule 150 (EnemyClearTint (ident e))] @ c3)"
    and c3: "c3 = [] \<or> c3 = [Present (DeathExplosion (enemy_x e) (enemy_y e)),
                            Schedule 500 (EnemyDestroy (ident e))]"
    and f: "ident e' = ident e"
       "velocity_x e' = (case attackDirection p of Left \<Rightarrow> - knockbackForce p
                            | Right \<Rightarrow> knockbackForce p | _ \<Rightarrow> 0)"
       "velocity_y e' = (case attackDirection p of Up \<Rightarrow> - knockbackForce p
                            | Down \<Rightarrow> knockbackForce p | _ \<Rightarrow> 0)"
       "stunned e'" "enemy_tint e' = Some 0xff0000"
    and rej: "isDying e \<or> t - lastHitTime e < hitCooldown e \<longrightarrow>
            c3 = [] \<and> hitsTaken e' = hitsTaken e \<and> lastHitTime e' = lastHitTime e
            \<and> isDying e' = isDying e"
    using hitEnemy_attacking[OF True, of t e] by blast
  let ?calls = "(if stunned e then [] else [Schedule 500 (EnemyStunClear (ident e))])
            @ [Schedule 150 (EnemyClearTint (ident e))] @ c3"
  have mem: "Schedule 150 (EnemyClearTint (ident e)) \<in> set ?calls"
    "\<not> stunned e \<longrightarrow> Schedule 500 (EnemyStunClear (ident e)) \<in> set ?calls"
    "stunned e \<longrightarrow> Schedule 500 (EnemyStunClear (ident e)) \<notin> set ?calls"
    using c3 by auto
  have cb: "run_callback (EnemyStunClear (ident e)) sc =
               Inr (sc\<lparr>heap := (heap sc)(ident e \<mapsto> e'\<lparr>stunned := False\<rparr>)\<rparr>)
           \<and> run_callback (EnemyClearTint (ident e)) sc =
               Inr (sc\<lparr>heap := (heap sc)(ident e \<mapsto> e'\<lparr>enemy_tint := None\<rparr>)\<rparr>)"
    if "heap sc (ident e) = Some e'" for sc
    using that by (simp add: update_enemy_def)
  have sw: "heap (swordHit t e sc) (ident e) = Some e'
           \<and> timers (swordHit t e sc) = timers sc @ scheduled ?calls
           \<and> (\<not> stunned e \<longrightarrow>
                (\<exists>s'. fire (length (timers sc)) (swordHit t e sc) = Inr s'
                    \<and> heap s' (ident e) = Some (e'\<lparr>stunned := False\<rparr>)))
           \<and> (\<exists>s'. fire (length (timers sc) + (if stunned e then 0 else 1))
                       (swordHit t e sc) = Inr s'
                    \<and> heap s' (ident e) = Some (e'\<lparr>enemy_tint := None\<rparr>))"
    if p: "player sc = p" for sc
  proof -
    let ?s = "swordHit t e sc"
    have hp: "heap ?s (ident e) = Some e'" and tm: "timers ?s = timers sc @ scheduled ?calls"
      using h p by (simp_all add: swordHit_def Let_def)
    have self: "?s = ?s\<lparr>timers := timers sc @ scheduled ?calls\<rparr>" using tm by simp
    have stun: "\<exists>s'. fire (length (timers sc)) ?s = Inr s'
                    \<and> heap s' (ident e) = Some (e'\<lparr>stunned := False\<rparr>)" if ns: "\<not> stunned e"
    proof -
      have "fire (length (timers sc)) ?s =
              run_callback (EnemyStunClear (ident e))
                (?s\<lparr>timers := take (length (timers sc)) (timers ?s)
                               @ drop (Suc (length (timers sc))) (timers ?s)\<rparr>)"
        using ns unfolding fire_def tm by (simp add: nth_append)
      then show ?thesis using hp by (simp add: update_enemy_def)
    qed
    have tintc: "\<exists>s'. fire (length (timers sc) + (if stunned e then 0 else 1)) ?s = Inr s'
                    \<and> heap s' (ident e) = Some (e'\<lparr>enemy_tint := None\<rparr>)"
    proof -
      let ?n = "length (timers sc) + (if stunned e then 0 else 1)"
      have "fire ?n ?s =
              run_callback (EnemyClearTint (ident e))
                (?s\<lparr>timers := take ?n (timers ?s) @ drop (Suc ?n) (timers ?s)\<rparr>)"
        unfolding fire_def tm by (simp add: nth_append)
      then show ?thesis using hp by (simp add: update_enemy_def)
    qed
    show ?thesis using hp tm stun tintc by blast
  qed
  have r: "fst (hitEnemy t p e) = True" "fst (snd (hitEnemy t p e)) = e'"
    "snd (snd (hitEnemy t p e)) = ?calls"
    using h by simp_all
  show ?thesis unfolding Let_def r
    using True f c3 mem rej cb sw by blast
qed

theorem hitEnemy_always_hits_witness:
  "isAttacking ((Player_new 100 280)\<lparr>isAttacking := True\<rparr>)
   \<and> isDying (goblin\<lparr>isDying := True\<rparr>)
   \<and> hitEnemy 1000 ((Player_new 100 280)\<lparr>isAttacking := True\<rparr>) (goblin\<lparr>isDying := True\<rparr>) =
       (True,
        goblin\<lparr>isDying := True, velocity_x := 200, velocity_y := 0, stunned := True,
               enemy_tint := Some 0xff0000\<rparr>,
        [Schedule 500 (EnemyStunClear 0), Schedule 150 (EnemyClearTint 0)])
   \<and> map_option stunned
        (heap (swordHit 1000 goblin (arena\<lparr>player := (Player_new 100 280)\<lparr>isAttacking := True\<rparr>\<rparr>)) 0)
        = Some True
   \<and> (\<exists>s'. fire 0 (swordHit 1000 goblin
                      (arena\<lparr>player := (Player_new 100 280)\<lparr>isAttacking := True\<rparr>\<rparr>)) = Inr s'
          \<and> map_option stunned (heap s' 0) = Some False)
   \<and> (\<exists>s'. fire 1 (swordHit 1000 goblin
                      (arena\<lparr>player := (Player_new 100 280)\<lparr>isAttacking := True\<rparr>\<rparr>)) = Inr s'
          \<and> map_option enemy_tint (heap s' 0) = Some None)
   \<and> \<not> isAttacking (Player_new 100 280)
   \<and> hitEnemy 1000 (Player_new 100 280) goblin = (False, goblin, [])"
proof -
  let ?p = "(Player_new 100 280)\<lparr>isAttacking := True\<rparr>"
  let ?sc = "arena\<lparr>player := ?p\<rparr>"
  let ?e' = "fst (snd (hitEnemy 1000 ?p goblin))"
  have att: "isAttacking ?p" by simp
  have a: "hitEnemy 1000 ?p (goblin\<lparr>isDying := True\<rparr>) =
       (True,
        goblin\<lparr>isDying := True, velocity_x := 200, velocity_y := 0, stunned := True,
               enemy_tint := Some 0xff0000\<rparr>,
        [Schedule 500 (EnemyStunClear 0), Schedule 150 (EnemyClearTint 0)])"
    using hitEnemy_always_hits[of ?p 1000 "goblin\<lparr>isDying := True\<rparr>"]
    by (simp add: Player_new_def hitEnemy_def takeDamage_def goblin_fields)
  note T = hitEnemy_always_hits[of ?p 1000 goblin, THEN conjunct1, THEN mp, OF att,
      unfolded Let_def]
  have st: "stunned ?e'" using T by blast
  have pl: "player ?sc = ?p" by simp
  have sw: "heap (swordHit 1000 goblin ?sc) (ident goblin) = Some ?e'
      \<and> (\<not> stunned goblin \<longrightarrow>
            (\<exists>s'. fire (length (timers ?sc)) (swordHit 1000 goblin ?sc) = Inr s'
                \<and> heap s' (ident goblin) = Some (?e'\<lparr>stunned := False\<rparr>)))
      \<and> (\<exists>s'. fire (length (timers ?sc) + (if stunned goblin then 0 else 1))
                   (swordHit 1000 goblin ?sc) = Inr s'
                \<and> heap s' (ident goblin) = Some (?e'\<lparr>enemy_tint := None\<rparr>))"
    using T pl by blast
  have b: "map_option stunned (heap (swordHit 1000 goblin ?sc) 0) = Some True"
    using sw st by (simp add: goblin_fields)
  have c: "\<exists>s'. fire 0 (swordHit 1000 goblin ?sc) = Inr s'
          \<and> map_option stunned (heap s' 0) = Some False"
    using sw by (auto simp: goblin_fields arena_def initBreakableItems_def fresh_scene_def)
  have d: "\<exists>s'. fire 1 (swordHit 1000 goblin ?sc) = Inr s'
          \<and> map_option enemy_tint (heap s' 0) = Some None"
    using sw by (auto simp: goblin_fields arena_def initBreakableItems_def fresh_scene_def)
  have e: "hitEnemy 1000 (Player_new 100 280) goblin = (False, goblin, [])"
    using hitEnemy_always_hits[of "Player_new 100 280" 1000 goblin]
    by (simp add: Player_new_def)
  show ?thesis using att a b c d e by (simp add: Player_new_def)
qed

text \<open>
  Claim C9. The constructor throws for a missing config, for a config whose texture
  is missing or empty (in both cases before anything else has happened), and for a
  config without the object of animation keys; with a texture and the animation keys
  it returns the enemy.
\<close>

theorem Enemy_new_fails_fast:
  "(Enemy_new i x y None = ([], Inl (Error ''Enemy requires a 'texture' property in the config.'')))
 \<and> (\<not> truthy_str (cfg_texture c) \<longrightarrow>
       Enemy_new i x y (Some c) = ([], Inl (Error ''Enemy requires a 'texture' property in the config.'')))
 \<and> (cfg_anims c = None \<longrightarrow> isl (snd (Enemy_new i x y (Some c))))
 \<and> (truthy_str (cfg_texture c) \<and> cfg_anims c \<noteq> None \<longrightarrow>
       \<not> isl (snd (Enemy_new i x y (Some c))))"
  by (auto simp: Enemy_new_def Let_def split: option.splits)

theorem Enemy_new_fails_fast_witness:
  "\<not> truthy_str (cfg_texture (enemyConfig\<lparr>cfg_texture := None\<rparr>))
   \<and> isl (snd (Enemy_new 0 50 50 (Some (enemyConfig\<lparr>cfg_texture := None\<rparr>))))
   \<and> cfg_anims (enemyConfig\<lparr>cfg_anims := None\<rparr>) = None
   \<and> isl (snd (Enemy_new 0 50 50 (Some (enemyConfig\<lparr>cfg_anims := None\<rparr>))))
   \<and> truthy_str (cfg_texture enemyConfig) \<and> cfg_anims enemyConfig \<noteq> None
   \<and> \<not> isl (snd (Enemy_new 0 50 50 (Some enemyConfig)))"
  using Enemy_new_fails_fast[of 0 50 50 "enemyConfig\<lparr>cfg_texture := None\<rparr>"]
        Enemy_new_fails_fast[of 0 50 50 "enemyConfig\<lparr>cfg_anims := None\<rparr>"]
        Enemy_new_fails_fast[of 0 50 50 enemyConfig]
  by (simp add: enemyConfig_def truthy_str_def)

section \<open>Properties of the scene\<close>

lemma submit_fields [simp]:
  "playerInvincible (submit cs sc) = playerInvincible sc"
  "ui (submit cs sc) = ui sc"
  "player (submit cs sc) = player sc"
  "invincibilityTime (submit cs sc) = invincibilityTime sc"
  "enemies (submit cs sc) = enemies sc"
  "heap (submit cs sc) = heap sc"
  "currentWave (submit cs sc) = currentWave sc"
  "maxWaves (submit cs sc) = maxWaves sc"
  "nextIdent (submit cs sc) = nextIdent sc"
  "breakableItems (submit cs sc) = breakableItems sc"
  "itemsLayer (submit cs sc) = itemsLayer sc"
  "wallsLayer (submit cs sc) = wallsLayer sc"
  "tilemap_of (submit cs sc) = tilemap_of sc"
  "rnd (submit cs sc) = rnd sc"
  "rnd_pos (submit cs sc) = rnd_pos sc"
  "playerMaxHealth (submit cs sc) = playerMaxHealth sc"
  by (induction cs sc rule: submit.induct; simp)+

lemma arena_fields:
  "\<not> playerInvincible arena" "invincibilityTime arena = 1000" "playerMaxHealth arena = 5"
  "ui arena = UI_new 5"
  "player arena = Player_new 100 280"
  "timers arena = []" "effects arena = []"
  "currentWave arena = 0" "maxWaves arena = 5" "enemies arena = []" "nextIdent arena = 0"
  "heap arena = Map.empty" "rnd arena = (\<lambda>_. 0)" "rnd_pos arena = 0"
  "tilemap_of arena = demo_map" "wallsLayer arena = []" "itemsLayer arena = [crate]"
  "breakableItems arena =
     [(3, 4) \<mapsto> \<lparr> item_tile = crate, hits = 0, maxHits = 2, item_lastHitTime = 0 \<rparr>]"
  by (simp_all add: arena_def initBreakableItems_def fresh_scene_def crate_def)

lemma UI_damagePlayer_parts:
  "fst (UI_damagePlayer amount u) = currentHealth u - amount"
  "fst (snd (UI_damagePlayer amount u)) = updateHealth (currentHealth u - amount) u"
  "snd (snd (UI_damagePlayer amount u)) = [Present (CameraShake 200 0.01)]"
  by (simp_all add: UI_damagePlayer_def Let_def)

lemma updateHealth_fields [simp]:
  "currentHealth (updateHealth h u) = max 0 (min h (maxHealth u))"
  "maxHealth (updateHealth h u) = maxHealth u"
  "isPaused (updateHealth h u) = isPaused u"
  "hearts (updateHealth h u) = hearts u"
  by (simp_all add: updateHealth_def startHeartPulse_def stopHeartPulse_def Let_def)

text \<open>The interface keeps the health between 0 and \<open>maxHealth\<close>.\<close>

lemma UI_health_range:
  "currentHealth (UI_new m) \<le> maxHealth (UI_new m)"
  "0 \<le> maxHealth u \<Longrightarrow> 0 \<le> currentHealth (updateHealth h u)
      \<and> currentHealth (updateHealth h u) \<le> maxHealth (updateHealth h u)"
  by (simp_all add: UI_new_def)

lemma damagePlayer_unfold:
  "\<not> playerInvincible sc \<Longrightarrow>
   damagePlayer sc =
     (let sc2 = sc\<lparr>effects := effects sc @ [CameraShake 100 0.01, CameraShake 200 0.01],
                    ui := updateHealth (currentHealth (ui sc) - 1) (ui sc)\<rparr>
      in if currentHealth (ui sc) - 1 \<le> 0
         then sc2\<lparr>player := (player sc)\<lparr>player_tint := Some 0xff0000\<rparr>,
                  timers := timers sc @ [(500, ShowGameOverCb)]\<rparr>
         else sc2\<lparr>playerInvincible := True,
                  player := (player sc)\<lparr>player_alpha := 0.5\<rparr>,
                  timers := timers sc @ [(150, PlayerFlash 5), (invincibilityTime sc, ResetInvincible)]\<rparr>)"
  by (simp add: damagePlayer_def playerDeath_def UI_damagePlayer_def Let_def)

lemma touched_fields:
  "playerInvincible touched" "invincibilityTime touched = 1000"
  "\<not> isKnockedBack (player touched)" "player_tint (player touched) = None"
  "currentHealth (ui touched) = 4" "maxHealth (ui touched) = 5" "effects touched \<noteq> []"
  "timers touched = [(150, PlayerFlash 5), (1000, ResetInvincible)]"
  by (simp_all add: touched_def arena_fields Player_new_def UI_new_def
      playerHit_def damagePlayer_unfold knockback_def fire_def Let_def)

text \<open>
  Claim C5. With the invincibility time 1000 the constructor sets. A call of
  \<^verbatim>\<open>damagePlayer\<close> while the invincibility flag is set changes nothing, so the
  health stays as it is. A call without the flag shakes the camera and has the
  interface take one point of damage. Where the interface holds a health within its
  range (at most \<open>maxHealth\<close>), the health left is the old one less 1, but not below 0,
  and it is positive exactly when the number the interface returns, which the code
  tests, is. When the health left is positive, the flag is set, the flashing and the
  reset of the flag are scheduled, the reset 1000 ms later, a further call changes
  nothing, and the reset when the engine runs it clears the flag and leaves the health.
  When the health left is 0 or less, the death sequence starts (red tint, the 500 ms
  fall whose end shows the game-over screen and pauses the physics), the flag stays
  clear and no reset is scheduled.
\<close>

theorem damagePlayer_invincibility:
  assumes "invincibilityTime sc = 1000"
  shows "(playerInvincible sc \<longrightarrow> damagePlayer sc = sc)
       \<and> (\<not> playerInvincible sc \<longrightarrow>
            ui (damagePlayer sc) = updateHealth (currentHealth (ui sc) - 1) (ui sc)
          \<and> effects (damagePlayer sc) =
              effects sc @ [CameraShake 100 0.01, CameraShake 200 0.01])
       \<and> (\<not> playerInvincible sc \<and> currentHealth (ui sc) \<le> maxHealth (ui sc) \<longrightarrow>
            currentHealth (ui (damagePlayer sc)) = max 0 (currentHealth (ui sc) - 1)
          \<and> (0 < currentHealth (ui (damagePlayer sc)) \<longleftrightarrow>
               0 < fst (UI_damagePlayer 1 (ui sc))))
       \<and> (\<not> playerInvincible sc \<and> fst (UI_damagePlayer 1 (ui sc)) > 0 \<longrightarrow>
            playerInvincible (damagePlayer sc)
          \<and> timers (damagePlayer sc) =
              timers sc @ [(150, PlayerFlash 5), (1000, ResetInvincible)]
          \<and> damagePlayer (damagePlayer sc) = damagePlayer sc
          \<and> (\<exists>sc'. fire (length (timers sc) + 1) (damagePlayer sc) = Inr sc'
                \<and> \<not> playerInvincible sc' \<and> ui sc' = ui (damagePlayer sc)
                \<and> timers sc' = timers sc @ [(150, PlayerFlash 5)]))
       \<and> (\<not> playerInvincible sc \<and> fst (UI_damagePlayer 1 (ui sc)) \<le> 0 \<longrightarrow>
            \<not> playerInvincible (damagePlayer sc)
          \<and> player_tint (player (damagePlayer sc)) = Some 0xff0000
          \<and> timers (damagePlayer sc) = timers sc @ [(500, ShowGameOverCb)]
          \<and> (\<exists>sc'. fire (length (timers sc)) (damagePlayer sc) = Inr sc'
                \<and> effects sc' = effects (damagePlayer sc) @ [GameOverText, PhysicsPause]
                \<and> \<not> playerInvincible sc'))"
proof (cases "playerInvincible sc")
  case True
  then show ?thesis by (simp add: damagePlayer_def)
next
  case False
  note u = damagePlayer_unfold[OF False]
  have r: "fst (UI_damagePlayer 1 (ui sc)) = currentHealth (ui sc) - 1"
    by (simp add: UI_damagePlayer_parts)
  have a: "ui (damagePlayer sc) = updateHealth (currentHealth (ui sc) - 1) (ui sc)"
    "effects (damagePlayer sc) = effects sc @ [CameraShake 100 0.01, CameraShake 200 0.01]"
    unfolding u by (simp_all add: Let_def)
  have b: "currentHealth (ui (damagePlayer sc)) = max 0 (currentHealth (ui sc) - 1)
          \<and> (0 < currentHealth (ui (damagePlayer sc)) \<longleftrightarrow> 0 < fst (UI_damagePlayer 1 (ui sc)))"
    if "currentHealth (ui sc) \<le> maxHealth (ui sc)"
    using that unfolding a r by auto
  have c: "playerInvincible (damagePlayer sc)
          \<and> timers (damagePlayer sc) =
              timers sc @ [(150, PlayerFlash 5), (1000, ResetInvincible)]
          \<and> damagePlayer (damagePlayer sc) = damagePlayer sc
          \<and> (\<exists>sc'. fire (length (timers sc) + 1) (damagePlayer sc) = Inr sc'
                \<and> \<not> playerInvincible sc' \<and> ui sc' = ui (damagePlayer sc)
                \<and> timers sc' = timers sc @ [(150, PlayerFlash 5)])"
    if pos: "fst (UI_damagePlayer 1 (ui sc)) > 0"
  proof -
    have p: "\<not> currentHealth (ui sc) - 1 \<le> 0" using pos r by simp
    have i: "playerInvincible (damagePlayer sc)"
      and t: "timers (damagePlayer sc) = timers sc @ [(150, PlayerFlash 5), (1000, ResetInvincible)]"
      unfolding u using p assms by (simp_all add: Let_def)
    have again: "damagePlayer (damagePlayer sc) = damagePlayer sc"
      using i by (simp add: damagePlayer_def)
    have "fire (length (timers sc) + 1) (damagePlayer sc) =
            run_callback ResetInvincible
              ((damagePlayer sc)\<lparr>timers := timers sc @ [(150, PlayerFlash 5)]\<rparr>)"
      unfolding fire_def t by (simp add: nth_append)
    then show ?thesis using i t again by simp
  qed
  have d: "\<not> playerInvincible (damagePlayer sc)
          \<and> player_tint (player (damagePlayer sc)) = Some 0xff0000
          \<and> timers (damagePlayer sc) = timers sc @ [(500, ShowGameOverCb)]
          \<and> (\<exists>sc'. fire (length (timers sc)) (damagePlayer sc) = Inr sc'
                \<and> effects sc' = effects (damagePlayer sc) @ [GameOverText, PhysicsPause]
                \<and> \<not> playerInvincible sc')"
    if neg: "fst (UI_damagePlayer 1 (ui sc)) \<le> 0"
  proof -
    have p: "currentHealth (ui sc) - 1 \<le> 0" using neg r by simp
    have i: "\<not> playerInvincible (damagePlayer sc)"
      and tn: "player_tint (player (damagePlayer sc)) = Some 0xff0000"
      and t: "timers (damagePlayer sc) = timers sc @ [(500, ShowGameOverCb)]"
      unfolding u using p False by (simp_all add: Let_def)
    have "fire (length (timers sc)) (damagePlayer sc) =
            run_callback ShowGameOverCb ((damagePlayer sc)\<lparr>timers := timers sc\<rparr>)"
      unfolding fire_def t by (simp add: nth_append)
    then show ?thesis using i tn t by (simp add: showGameOver_def)
  qed
  show ?thesis using False a b c d by blast
qed

theorem damagePlayer_invincibility_witness:
  "invincibilityTime touched = 1000 \<and> playerInvincible touched
   \<and> damagePlayer touched = touched
   \<and> invincibilityTime arena = 1000 \<and> \<not> playerInvincible arena
   \<and> currentHealth (ui arena) = 5 \<and> maxHealth (ui arena) = 5
   \<and> fst (UI_damagePlayer 1 (ui arena)) = 4
   \<and> currentHealth (ui (damagePlayer arena)) = 4
   \<and> playerInvincible (damagePlayer arena)
   \<and> timers (damagePlayer arena) = [(150, PlayerFlash 5), (1000, ResetInvincible)]
   \<and> damagePlayer (damagePlayer arena) = damagePlayer arena
   \<and> fst (UI_damagePlayer 1 (ui (arena\<lparr>ui := updateHealth 1 (ui arena)\<rparr>))) = 0
   \<and> currentHealth (ui (damagePlayer (arena\<lparr>ui := updateHealth 1 (ui arena)\<rparr>))) = 0
   \<and> \<not> playerInvincible (damagePlayer (arena\<lparr>ui := updateHealth 1 (ui arena)\<rparr>))
   \<and> timers (damagePlayer (arena\<lparr>ui := updateHealth 1 (ui arena)\<rparr>)) = [(500, ShowGameOverCb)]"
proof -
  let ?low = "arena\<lparr>ui := updateHealth 1 (ui arena)\<rparr>"
  have t: "invincibilityTime touched = 1000" "playerInvincible touched"
    by (simp_all add: touched_fields)
  have t': "damagePlayer touched = touched"
    using damagePlayer_invincibility[OF t(1)] t(2) by blast
  have a: "invincibilityTime arena = 1000" "\<not> playerInvincible arena"
    "fst (UI_damagePlayer 1 (ui arena)) = 4"
    "currentHealth (ui arena) = 5" "maxHealth (ui arena) = 5"
    "currentHealth (ui arena) \<le> maxHealth (ui arena)" "timers arena = []"
    by (simp_all add: arena_fields UI_damagePlayer_parts UI_new_def)
  note A = damagePlayer_invincibility[OF a(1)]
  have a1: "currentHealth (ui (damagePlayer arena)) = max 0 (currentHealth (ui arena) - 1)"
    using A a(2,6) by blast
  have a2: "playerInvincible (damagePlayer arena)
          \<and> timers (damagePlayer arena) =
              timers arena @ [(150, PlayerFlash 5), (1000, ResetInvincible)]
          \<and> damagePlayer (damagePlayer arena) = damagePlayer arena"
    using A a(2,3) by simp
  have l: "invincibilityTime ?low = 1000" "\<not> playerInvincible ?low"
    "fst (UI_damagePlayer 1 (ui ?low)) = 0"
    "currentHealth (ui ?low) \<le> maxHealth (ui ?low)" "currentHealth (ui ?low) = 1"
    "timers ?low = []"
    by (simp_all add: arena_fields UI_damagePlayer_parts UI_new_def)
  note L = damagePlayer_invincibility[OF l(1)]
  have l1: "currentHealth (ui (damagePlayer ?low)) = max 0 (currentHealth (ui ?low) - 1)"
    using L l(2,4) by blast
  have l2: "\<not> playerInvincible (damagePlayer ?low)
          \<and> timers (damagePlayer ?low) = timers ?low @ [(500, ShowGameOverCb)]"
    using L l(2,3) by simp
  show ?thesis using t t' a a1 a2 l l1 l2 by simp
qed

text \<open>
  Claim C8, as the code has it. While the invincibility flag is set, an enemy touching
  the player does no damage: the interface (and so the health) and the flag stay as
  they are, and no shake, flashing or invincibility timer is added. The rest of
  \<^verbatim>\<open>playerHit\<close> runs as on any touch: the player is tinted red with the 100 ms
  reset, knocked back at speed 300 along the angle from the enemy to the player with
  the knockback reset scheduled, and the contact effect is shown.
\<close>

theorem playerHit_while_invincible:
  assumes "playerInvincible sc"
  shows "(let sc' = playerHit e sc;
              angle = Angle_Between (enemy_x e) (enemy_y e)
                        (player_x (player sc)) (player_y (player sc))
          in ui sc' = ui sc
           \<and> playerInvincible sc'
           \<and> player sc' = (player sc)\<lparr> player_tint := Some 0xff0000, isKnockedBack := True,
                                       player_velocity_x := cos angle * 300,
                                       player_velocity_y := sin angle * 300 \<rparr>
           \<and> timers sc' = timers sc @ [(100, PlayerClearTint),
                                        (knockbackDuration (player sc), PlayerKnockbackReset)]
           \<and> effects sc' = effects sc @ [HitEffect (player_x (player sc) - cos angle * 10)
                                                    (player_y (player sc) - sin angle * 10)])"
  using assms
  by (simp add: playerHit_def damagePlayer_def knockback_def Let_def)

theorem playerHit_while_invincible_witness:
  "playerInvincible touched
   \<and> currentHealth (ui (playerHit goblin touched)) = 4
   \<and> playerInvincible (playerHit goblin touched)
   \<and> timers (playerHit goblin touched) =
       [(150, PlayerFlash 5), (1000, ResetInvincible), (100, PlayerClearTint),
        (knockbackDuration (player touched), PlayerKnockbackReset)]"
proof -
  have t: "playerInvincible touched" by (simp add: touched_fields)
  show ?thesis using playerHit_while_invincible[OF t, of goblin]
    by (simp add: Let_def touched_fields)
qed

text \<open>
  Claim C8 as stated fails: in the sample scene, where the player is invincible,
  neither knocked back nor tinted, a touch by the enemy knocks the player back, tints
  the player and shows one more effect; only the health stays.
\<close>

theorem playerHit_invincible_counterexample:
  "playerInvincible touched \<and> \<not> isKnockedBack (player touched)
   \<and> player_tint (player touched) = None
   \<and> isKnockedBack (player (playerHit goblin touched))
   \<and> player_tint (player (playerHit goblin touched)) = Some 0xff0000
   \<and> length (effects (playerHit goblin touched)) = length (effects touched) + 1
   \<and> currentHealth (ui (playerHit goblin touched)) = currentHealth (ui touched)"
  by (simp add: touched_fields playerHit_def damagePlayer_def knockback_def Let_def)

lemma getTileAt_removeTileAt [simp]: "getTileAt (removeTileAt tx ty l) tx ty = None"
  by (induction l) (auto simp: getTileAt_def removeTileAt_def)

lemma hitBreakableItem_debounced:
  "breakableItems sc k = Some item \<Longrightarrow>
   item_lastHitTime item \<noteq> 0 \<Longrightarrow> now - item_lastHitTime item < 500 \<Longrightarrow>
   hitBreakableItem now k sc = Inr sc"
  by (cases k) (simp add: hitBreakableItem_def)

lemma hitBreakableItem_accepted:
  "breakableItems sc k = Some item \<Longrightarrow>
   item_lastHitTime item = 0 \<or> now - item_lastHitTime item \<ge> 500 \<Longrightarrow>
   \<exists>sc'. hitBreakableItem now k sc = Inr sc'
      \<and> (if hits item + 1 \<ge> maxHits item
          then breakableItems sc' k = None
             \<and> getTileAt (itemsLayer sc') (fst k) (snd k) = None
          else \<exists>item'. breakableItems sc' k = Some item'
             \<and> hits item' = hits item + 1 \<and> maxHits item' = maxHits item
             \<and> item_lastHitTime item' = now)"
  by (cases k) (auto simp: hitBreakableItem_def Let_def)

lemma hitBreakableItem_other_tile:
  "k' \<noteq> k \<Longrightarrow> hitBreakableItem now k' sc = Inr sc' \<Longrightarrow> breakableItems sc' k = breakableItems sc k"
  by (cases k'; cases "breakableItems sc k'")
     (auto simp: hitBreakableItem_def Let_def split: if_splits)

text \<open>
  Claim C3. The scene clock reads a positive number of milliseconds whenever the sword
  can hit a tile, and a record holds the stored time 0 only until its first accepted
  hit. For a tile with a record, at a positive clock reading: a hit within 500 ms of
  the last accepted hit changes nothing at all; any other hit is accepted, stores its
  time and counts, and when the count reaches \<open>maxHits\<close> the record leaves the map and
  the tile leaves the items layer. A hit on another tile leaves this tile's record as
  it is. So for a fresh record with \<open>maxHits = 2\<close>: the first hit counts, a hit 200 ms
  later changes nothing, so that one hit is registered, and a hit more than 500 ms
  after the first removes the tile from the layer and the record from the map.
\<close>

theorem hitBreakableItem_debounce:
  assumes "breakableItems sc k = Some item" and "0 < now"
  shows
    "(item_lastHitTime item \<noteq> 0 \<and> now - item_lastHitTime item < 500 \<longrightarrow>
        hitBreakableItem now k sc = Inr sc)
   \<and> (item_lastHitTime item = 0 \<or> now - item_lastHitTime item \<ge> 500 \<longrightarrow>
        (\<exists>sc'. hitBreakableItem now k sc = Inr sc'
           \<and> (if hits item + 1 \<ge> maxHits item
               then breakableItems sc' k = None
                  \<and> getTileAt (itemsLayer sc') (fst k) (snd k) = None
               else \<exists>item'. breakableItems sc' k = Some item'
                  \<and> hits item' = hits item + 1 \<and> maxHits item' = maxHits item
                  \<and> item_lastHitTime item' = now)))
   \<and> (\<forall>k' sc'. k' \<noteq> k \<and> hitBreakableItem now k' sc = Inr sc' \<longrightarrow>
          breakableItems sc' k = Some item)
   \<and> (hits item = 0 \<and> maxHits item = 2 \<and> item_lastHitTime item = 0 \<longrightarrow>
        (\<exists>s1 item1. hitBreakableItem now k sc = Inr s1
           \<and> breakableItems s1 k = Some item1 \<and> hits item1 = 1
           \<and> item_lastHitTime item1 = now
           \<and> hitBreakableItem (now + 200) k s1 = Inr s1
           \<and> (\<forall>later. later - now > 500 \<longrightarrow>
                 (\<exists>s2. hitBreakableItem later k s1 = Inr s2
                    \<and> breakableItems s2 k = None
                    \<and> getTileAt (itemsLayer s2) (fst k) (snd k) = None))))"
proof -
  have c: "\<exists>s1 item1. hitBreakableItem now k sc = Inr s1
           \<and> breakableItems s1 k = Some item1 \<and> hits item1 = 1
           \<and> item_lastHitTime item1 = now
           \<and> hitBreakableItem (now + 200) k s1 = Inr s1
           \<and> (\<forall>later. later - now > 500 \<longrightarrow>
                 (\<exists>s2. hitBreakableItem later k s1 = Inr s2
                    \<and> breakableItems s2 k = None
                    \<and> getTileAt (itemsLayer s2) (fst k) (snd k) = None))"
    if h: "hits item = 0" "maxHits item = 2" "item_lastHitTime item = 0"
  proof -
    obtain s1 item1 where s1: "hitBreakableItem now k sc = Inr s1"
      "breakableItems s1 k = Some item1" "hits item1 = 1" "maxHits item1 = 2"
      "item_lastHitTime item1 = now"
      using hitBreakableItem_accepted[OF assms(1), of now] h by auto
    have again: "hitBreakableItem (now + 200) k s1 = Inr s1"
      using hitBreakableItem_debounced[OF s1(2), of "now + 200"] s1(5) assms(2) by simp
    have "\<exists>s2. hitBreakableItem later k s1 = Inr s2
                    \<and> breakableItems s2 k = None
                    \<and> getTileAt (itemsLayer s2) (fst k) (snd k) = None"
      if "later - now > 500" for later
      using hitBreakableItem_accepted[OF s1(2), of later] s1(3,4,5) that by auto
    then show ?thesis using s1 again by blast
  qed
  have d: "\<forall>k' sc'. k' \<noteq> k \<and> hitBreakableItem now k' sc = Inr sc' \<longrightarrow>
          breakableItems sc' k = Some item"
    using hitBreakableItem_other_tile[of _ k now sc] assms(1) by auto
  show ?thesis
    using hitBreakableItem_debounced[OF assms(1), of now]
      hitBreakableItem_accepted[OF assms(1), of now] c d
    by blast
qed

theorem hitBreakableItem_debounce_witness:
  "breakableItems arena (3, 4) =
     Some \<lparr> item_tile = crate, hits = 0, maxHits = 2, item_lastHitTime = 0 \<rparr>
   \<and> (0::real) < 1000
   \<and> (\<exists>s1 item1. hitBreakableItem 1000 (3, 4) arena = Inr s1
         \<and> breakableItems s1 (3, 4) = Some item1 \<and> hits item1 = 1
         \<and> item_lastHitTime item1 = 1000
         \<and> hitBreakableItem 1200 (3, 4) s1 = Inr s1
         \<and> (\<exists>s2. hitBreakableItem 1600 (3, 4) s1 = Inr s2
               \<and> breakableItems s2 (3, 4) = None
               \<and> getTileAt (itemsLayer s2) 3 4 = None))"
proof -
  have a: "breakableItems arena (3, 4) =
     Some \<lparr> item_tile = crate, hits = 0, maxHits = 2, item_lastHitTime = 0 \<rparr>"
    by (simp add: arena_fields)
  have pos: "(0::real) < 1000" by simp
  obtain s1 item1 where s: "hitBreakableItem 1000 (3, 4) arena = Inr s1"
      "breakableItems s1 (3, 4) = Some item1" "hits item1 = 1"
      "item_lastHitTime item1 = 1000"
      "hitBreakableItem (1000 + 200) (3, 4) s1 = Inr s1"
      "\<forall>later. later - 1000 > 500 \<longrightarrow>
                 (\<exists>s2. hitBreakableItem later (3, 4) s1 = Inr s2
                    \<and> breakableItems s2 (3, 4) = None
                    \<and> getTileAt (itemsLayer s2) (fst (3, 4)) (snd (3, 4)) = None)"
    using hitBreakableItem_debounce[OF a pos] by auto
  have "\<exists>s2. hitBreakableItem 1600 (3, 4) s1 = Inr s2
                    \<and> breakableItems s2 (3, 4) = None
                    \<and> getTileAt (itemsLayer s2) 3 4 = None"
    using s(6) by simp
  then show ?thesis using a s(1-5) by auto
qed

lemma spawn_attempt_fields [simp]:
  "attempts (spawn_attempt sc st) = attempts st + 1"
  "cursor (spawn_attempt sc st) = cursor st + 2"
  "search_x (spawn_attempt sc st) \<noteq> None"
  "search_y (spawn_attempt sc st) \<noteq> None"
  by (simp_all add: spawn_attempt_def Let_def)

lemma loop_attempts_le: "attempts st \<le> 50 \<Longrightarrow> attempts (spawn_search_loop sc st) \<le> 50"
proof (induction sc st rule: spawn_search_loop.induct)
  case (1 sc st)
  show ?case
  proof (cases "\<not> validPosition st \<and> attempts st < 50")
    case True
    then have "attempts (spawn_search_loop sc (spawn_attempt sc st)) \<le> 50"
      using "1.IH" by simp
    then show ?thesis using True by (subst spawn_search_loop.simps) simp
  next
    case False
    then show ?thesis using "1.prems" by (subst spawn_search_loop.simps) auto
  qed
qed

lemma loop_exit: "validPosition (spawn_search_loop sc st) \<or> 50 \<le> attempts (spawn_search_loop sc st)"
proof (induction sc st rule: spawn_search_loop.induct)
  case (1 sc st)
  show ?case
  proof (cases "\<not> validPosition st \<and> attempts st < 50")
    case True
    then show ?thesis using "1.IH" by (subst (1 2) spawn_search_loop.simps) simp
  next
    case False
    then show ?thesis by (subst (1 2) spawn_search_loop.simps) auto
  qed
qed

lemma loop_cursor:
  "cursor (spawn_search_loop sc st) + 2 * attempts st =
     cursor st + 2 * attempts (spawn_search_loop sc st)"
proof (induction sc st rule: spawn_search_loop.induct)
  case (1 sc st)
  show ?case
  proof (cases "\<not> validPosition st \<and> attempts st < 50")
    case True
    then show ?thesis using "1.IH" by (subst (1 2) spawn_search_loop.simps) simp
  next
    case False
    then show ?thesis by (subst (1 2) spawn_search_loop.simps) auto
  qed
qed

lemma loop_xy:
  "(search_x st \<noteq> None \<and> search_y st \<noteq> None) \<or> (\<not> validPosition st \<and> attempts st < 50) \<Longrightarrow>
   search_x (spawn_search_loop sc st) \<noteq> None \<and> search_y (spawn_search_loop sc st) \<noteq> None"
proof (induction sc st rule: spawn_search_loop.induct)
  case (1 sc st)
  show ?case
  proof (cases "\<not> validPosition st \<and> attempts st < 50")
    case True
    then show ?thesis using "1.IH" by (subst (1 2) spawn_search_loop.simps) simp
  next
    case False
    then show ?thesis using "1.prems" by (subst (1 2) spawn_search_loop.simps) auto
  qed
qed

lemma spawn_attempt_valid:
  "\<not> validPosition st \<Longrightarrow> cursor st = rnd_pos sc + 2 * attempts st \<Longrightarrow>
   validPosition (spawn_attempt sc st) = validPosition (attempt_at sc (attempts st))"
  by (simp add: spawn_attempt_def attempt_at_def spawn_search_init_def Let_def)

lemma loop_all_invalid:
  "\<not> validPosition st \<Longrightarrow> cursor st = rnd_pos sc + 2 * attempts st \<Longrightarrow>
   \<forall>k. attempts st \<le> k \<and> k < 50 \<longrightarrow> \<not> validPosition (attempt_at sc k) \<Longrightarrow>
   \<not> validPosition (spawn_search_loop sc st)"
proof (induction sc st rule: spawn_search_loop.induct)
  case (1 sc st)
  show ?case
  proof (cases "attempts st < 50")
    case True
    have nv: "\<not> validPosition (spawn_attempt sc st)"
      using spawn_attempt_valid[OF "1.prems"(1,2)] "1.prems"(3) True by simp
    have "\<not> validPosition (spawn_search_loop sc (spawn_attempt sc st))"
      using "1.IH" True "1.prems" nv by simp
    then show ?thesis using True "1.prems"(1) by (subst spawn_search_loop.simps) simp
  next
    case False
    then show ?thesis using "1.prems"(1) by (subst spawn_search_loop.simps) simp
  qed
qed

lemma fallback_distance:
  "Distance_Between (px + cos a * 150) (py + sin a * 150) px py = 150"
proof -
  have "(cos a * 150)\<^sup>2 + (sin a * 150)\<^sup>2 = ((cos a)\<^sup>2 + (sin a)\<^sup>2) * 150\<^sup>2"
    by (simp only: power_mult_distrib distrib_right)
  also have "\<dots> = (150::real)\<^sup>2"
    by (simp only: cos_squared_eq) simp
  finally have "(cos a * 150)\<^sup>2 + (sin a * 150)\<^sup>2 = (150::real)\<^sup>2" .
  then have "sqrt ((cos a * 150)\<^sup>2 + (sin a * 150)\<^sup>2) = 150"
    by (simp only: real_sqrt_abs)
  then show ?thesis by (simp add: Distance_Between_def)
qed

text \<open>
  Claim C6. For every scene (map, layers, player position, random sequence) the search
  makes at most 50 passes, draws at most 101 random values, and returns a point with
  both coordinates. When the loop ends without a valid position, all 50 passes were
  made and the point returned is the player's position plus 150 times the cosine and
  sine of the angle drawn next, which lies at distance exactly 150 from the player (on
  real numbers). The loop ends without a valid position when each of the 50 passes,
  taken on its own, is invalid.
\<close>

theorem getValidSpawnPoint_total:
  "attempts (spawn_search_loop sc (spawn_search_init sc)) \<le> 50
 \<and> rnd_pos (snd (getValidSpawnPoint sc)) \<le> rnd_pos sc + 101
 \<and> (\<exists>x y. fst (getValidSpawnPoint sc) = (Some x, Some y))
 \<and> (\<not> validPosition (spawn_search_loop sc (spawn_search_init sc)) \<longrightarrow>
      attempts (spawn_search_loop sc (spawn_search_init sc)) = 50
    \<and> (let angle = rnd sc (rnd_pos sc + 100) * pi * 2;
           x = player_x (player sc) + cos angle * 150;
           y = player_y (player sc) + sin angle * 150
       in fst (getValidSpawnPoint sc) = (Some x, Some y)
        \<and> Distance_Between x y (player_x (player sc)) (player_y (player sc)) = 150))
 \<and> ((\<forall>k<50. \<not> validPosition (attempt_at sc k)) \<longrightarrow>
      \<not> validPosition (spawn_search_loop sc (spawn_search_init sc)))"
proof -
  let ?st = "spawn_search_loop sc (spawn_search_init sc)"
  have a: "attempts ?st \<le> 50"
    by (rule loop_attempts_le) (simp add: spawn_search_init_def)
  have cur: "cursor ?st = rnd_pos sc + 2 * attempts ?st"
    using loop_cursor[of sc "spawn_search_init sc"] by (simp add: spawn_search_init_def)
  have b: "rnd_pos (snd (getValidSpawnPoint sc)) \<le> rnd_pos sc + 101"
    using a cur by (simp add: getValidSpawnPoint_def spawn_search_run_def Let_def)
  have xy: "search_x ?st \<noteq> None \<and> search_y ?st \<noteq> None"
    by (rule loop_xy) (simp add: spawn_search_init_def)
  have c: "\<exists>x y. fst (getValidSpawnPoint sc) = (Some x, Some y)"
    using xy by (auto simp: getValidSpawnPoint_def spawn_search_run_def Let_def)
  have d: "\<not> validPosition ?st \<longrightarrow>
      attempts ?st = 50
    \<and> (let angle = rnd sc (rnd_pos sc + 100) * pi * 2;
           x = player_x (player sc) + cos angle * 150;
           y = player_y (player sc) + sin angle * 150
       in fst (getValidSpawnPoint sc) = (Some x, Some y)
        \<and> Distance_Between x y (player_x (player sc)) (player_y (player sc)) = 150)"
  proof
    assume nv: "\<not> validPosition ?st"
    have at: "attempts ?st = 50" using a nv loop_exit[of sc "spawn_search_init sc"] by simp
    then have "cursor ?st = rnd_pos sc + 100" using cur by simp
    then show "attempts ?st = 50
    \<and> (let angle = rnd sc (rnd_pos sc + 100) * pi * 2;
           x = player_x (player sc) + cos angle * 150;
           y = player_y (player sc) + sin angle * 150
       in fst (getValidSpawnPoint sc) = (Some x, Some y)
        \<and> Distance_Between x y (player_x (player sc)) (player_y (player sc)) = 150)"
      using nv at by (simp add: getValidSpawnPoint_def spawn_search_run_def Let_def fallback_distance)
  qed
  have e: "(\<forall>k<50. \<not> validPosition (attempt_at sc k)) \<longrightarrow> \<not> validPosition ?st"
  proof
    assume h: "\<forall>k<50. \<not> validPosition (attempt_at sc k)"
    show "\<not> validPosition ?st"
      by (rule loop_all_invalid) (use h in \<open>simp_all add: spawn_search_init_def\<close>)
  qed
  show ?thesis using a b c d e by blast
qed

lemma cornered_attempts: "\<not> validPosition (attempt_at (arena\<lparr>player := Player_new 50 50\<rparr>) k)"
  by (simp add: attempt_at_def spawn_attempt_def spawn_search_init_def arena_fields
      demo_map_def Between_def Distance_Between_def Player_new_def Let_def)

theorem getValidSpawnPoint_total_witness:
  "\<not> validPosition (attempt_at (arena\<lparr>player := Player_new 50 50\<rparr>) 0)
   \<and> \<not> validPosition (attempt_at (arena\<lparr>player := Player_new 50 50\<rparr>) 49)
   \<and> \<not> validPosition (spawn_search_loop (arena\<lparr>player := Player_new 50 50\<rparr>)
                        (spawn_search_init (arena\<lparr>player := Player_new 50 50\<rparr>)))
   \<and> attempts (spawn_search_loop (arena\<lparr>player := Player_new 50 50\<rparr>)
                 (spawn_search_init (arena\<lparr>player := Player_new 50 50\<rparr>))) = 50
   \<and> fst (getValidSpawnPoint (arena\<lparr>player := Player_new 50 50\<rparr>)) = (Some 200, Some 50)"
proof -
  let ?sc = "arena\<lparr>player := Player_new 50 50\<rparr>"
  have all: "\<forall>k<50. \<not> validPosition (attempt_at ?sc k)"
    using cornered_attempts by simp
  note T = getValidSpawnPoint_total[of ?sc]
  have nv: "\<not> validPosition (spawn_search_loop ?sc (spawn_search_init ?sc))"
    using T all by blast
  have "attempts (spawn_search_loop ?sc (spawn_search_init ?sc)) = 50
      \<and> (let angle = rnd ?sc (rnd_pos ?sc + 100) * pi * 2;
           x = player_x (player ?sc) + cos angle * 150;
           y = player_y (player ?sc) + sin angle * 150
       in fst (getValidSpawnPoint ?sc) = (Some x, Some y)
        \<and> Distance_Between x y (player_x (player ?sc)) (player_y (player ?sc)) = 150)"
    using T nv by blast
  then have "attempts (spawn_search_loop ?sc (spawn_search_init ?sc)) = 50
      \<and> fst (getValidSpawnPoint ?sc) = (Some 200, Some 50)"
    by (simp add: Let_def arena_fields Player_new_def)
  then show ?thesis using cornered_attempts nv by blast
qed

lemma getValidSpawnPoint_point:
  "\<exists>x y c. getValidSpawnPoint sc = ((Some x, Some y), sc\<lparr>rnd_pos := c\<rparr>)"
proof -
  have "search_x (spawn_search_loop sc (spawn_search_init sc)) \<noteq> None
      \<and> search_y (spawn_search_loop sc (spawn_search_init sc)) \<noteq> None"
    by (rule loop_xy) (simp add: spawn_search_init_def)
  then show ?thesis
    by (auto simp: getValidSpawnPoint_def spawn_search_run_def Let_def)
qed

lemma Enemy_new_enemyConfig:
  "\<exists>e. Enemy_new i x y (Some enemyConfig) = ([AddExisting i, PhysicsAddExisting i], Inr e)
       \<and> ident e = i \<and> \<not> isDying e"
  by (simp add: Enemy_new_def enemyConfig_def truthy_str_def)

lemma spawnEnemy_ok:
  "\<exists>e. spawnEnemy x y sc =
          Inr (sc\<lparr> heap := (heap sc)(nextIdent sc \<mapsto> e), nextIdent := nextIdent sc + 1,
                   effects := effects sc @ [AddExisting (nextIdent sc), PhysicsAddExisting (nextIdent sc)],
                   enemies := enemies sc @ [nextIdent sc] \<rparr>)
       \<and> ident e = nextIdent sc \<and> \<not> isDying e"
  using Enemy_new_enemyConfig[of "nextIdent sc" x y]
  by (auto simp: spawnEnemy_def Let_def)

lemma spawn_loop_ok:
  "\<exists>sc'. spawn_loop n sc = Inr sc'
        \<and> enemies sc' = enemies sc @ [nextIdent sc ..< nextIdent sc + n]
        \<and> nextIdent sc' = nextIdent sc + n
        \<and> currentWave sc' = currentWave sc \<and> maxWaves sc' = maxWaves sc
        \<and> timers sc' = timers sc"
proof (induction n arbitrary: sc)
  case 0
  then show ?case by simp
next
  case (Suc n)
  obtain x y c where g: "getValidSpawnPoint sc = ((Some x, Some y), sc\<lparr>rnd_pos := c\<rparr>)"
    using getValidSpawnPoint_point by blast
  let ?s1 = "sc\<lparr>rnd_pos := c\<rparr>"
  obtain e where s: "spawnEnemy x y ?s1 =
          Inr (?s1\<lparr> heap := (heap ?s1)(nextIdent ?s1 \<mapsto> e), nextIdent := nextIdent ?s1 + 1,
                   effects := effects ?s1 @ [AddExisting (nextIdent ?s1), PhysicsAddExisting (nextIdent ?s1)],
                   enemies := enemies ?s1 @ [nextIdent ?s1] \<rparr>)"
    using spawnEnemy_ok[of x y ?s1] by blast
  let ?s2 = "?s1\<lparr> heap := (heap ?s1)(nextIdent ?s1 \<mapsto> e), nextIdent := nextIdent ?s1 + 1,
                   effects := effects ?s1 @ [AddExisting (nextIdent ?s1), PhysicsAddExisting (nextIdent ?s1)],
                   enemies := enemies ?s1 @ [nextIdent ?s1] \<rparr>"
  obtain sc' where r: "spawn_loop n ?s2 = Inr sc'"
    "enemies sc' = enemies ?s2 @ [nextIdent ?s2 ..< nextIdent ?s2 + n]"
    "nextIdent sc' = nextIdent ?s2 + n" "currentWave sc' = currentWave ?s2"
    "maxWaves sc' = maxWaves ?s2" "timers sc' = timers ?s2"
    using Suc.IH[of ?s2] by blast
  have "[nextIdent sc ..< nextIdent sc + Suc n] = nextIdent sc # [Suc (nextIdent sc) ..< Suc (nextIdent sc) + n]"
    by (simp add: upt_conv_Cons)
  then show ?case using g s r by simp
qed

lemma spawnEnemy_object:
  "\<exists>e. Enemy_new (nextIdent sc) x y (Some enemyConfig) =
          ([AddExisting (nextIdent sc), PhysicsAddExisting (nextIdent sc)], Inr e)
      \<and> spawnEnemy x y sc =
          Inr (sc\<lparr> heap := (heap sc)(nextIdent sc \<mapsto> e), nextIdent := nextIdent sc + 1,
                   effects := effects sc @ [AddExisting (nextIdent sc), PhysicsAddExisting (nextIdent sc)],
                   enemies := enemies sc @ [nextIdent sc] \<rparr>)"
  using Enemy_new_enemyConfig[of "nextIdent sc" x y]
  by (auto simp: spawnEnemy_def Let_def)

text \<open>The enemy objects a run of the spawn loop creates: one under each new identity,
  the first at the first spawn point; the objects created earlier stay.\<close>

lemma spawn_loop_objects:
  "\<exists>sc'. spawn_loop n sc = Inr sc'
     \<and> (\<forall>i. nextIdent sc \<le> i \<and> i < nextIdent sc + n \<longrightarrow>
           (\<exists>x y e. heap sc' i = Some e
              \<and> Enemy_new i x y (Some enemyConfig) = ([AddExisting i, PhysicsAddExisting i], Inr e)))
     \<and> (\<forall>i. i < nextIdent sc \<longrightarrow> heap sc' i = heap sc i)
     \<and> (0 < n \<longrightarrow>
           (\<exists>x y e. fst (getValidSpawnPoint sc) = (Some x, Some y)
              \<and> heap sc' (nextIdent sc) = Some e
              \<and> Enemy_new (nextIdent sc) x y (Some enemyConfig) =
                  ([AddExisting (nextIdent sc), PhysicsAddExisting (nextIdent sc)], Inr e)))"
proof (induction n arbitrary: sc)
  case 0
  then show ?case by auto
next
  case (Suc n)
  obtain x y c where g: "getValidSpawnPoint sc = ((Some x, Some y), sc\<lparr>rnd_pos := c\<rparr>)"
    using getValidSpawnPoint_point by blast
  let ?s1 = "sc\<lparr>rnd_pos := c\<rparr>"
  let ?i = "nextIdent sc"
  obtain e where en: "Enemy_new ?i x y (Some enemyConfig) =
          ([AddExisting ?i, PhysicsAddExisting ?i], Inr e)"
    and s: "spawnEnemy x y ?s1 =
          Inr (?s1\<lparr> heap := (heap ?s1)(nextIdent ?s1 \<mapsto> e), nextIdent := nextIdent ?s1 + 1,
                   effects := effects ?s1 @ [AddExisting (nextIdent ?s1), PhysicsAddExisting (nextIdent ?s1)],
                   enemies := enemies ?s1 @ [nextIdent ?s1] \<rparr>)"
    using spawnEnemy_object[of ?s1 x y] by auto
  let ?s2 = "?s1\<lparr> heap := (heap ?s1)(nextIdent ?s1 \<mapsto> e), nextIdent := nextIdent ?s1 + 1,
                   effects := effects ?s1 @ [AddExisting (nextIdent ?s1), PhysicsAddExisting (nextIdent ?s1)],
                   enemies := enemies ?s1 @ [nextIdent ?s1] \<rparr>"
  obtain sc' where r: "spawn_loop n ?s2 = Inr sc'"
    and new: "\<forall>i. nextIdent ?s2 \<le> i \<and> i < nextIdent ?s2 + n \<longrightarrow>
           (\<exists>x y e. heap sc' i = Some e
              \<and> Enemy_new i x y (Some enemyConfig) = ([AddExisting i, PhysicsAddExisting i], Inr e))"
    and old: "\<forall>i. i < nextIdent ?s2 \<longrightarrow> heap sc' i = heap ?s2 i"
    using Suc.IH[of ?s2] by blast
  have run: "spawn_loop (Suc n) sc = Inr sc'" using g s r by simp
  have first: "heap sc' ?i = Some e" using old by simp
  have a: "\<exists>x y e. heap sc' i = Some e
              \<and> Enemy_new i x y (Some enemyConfig) = ([AddExisting i, PhysicsAddExisting i], Inr e)"
    if "?i \<le> i" "i < ?i + Suc n" for i
  proof (cases "i = ?i")
    case True
    then show ?thesis using first en by blast
  next
    case False
    then have "nextIdent ?s2 \<le> i \<and> i < nextIdent ?s2 + n" using that by simp
    then show ?thesis using new by blast
  qed
  have b: "heap sc' i = heap sc i" if "i < ?i" for i
    using old that by simp
  have c: "\<exists>x y e. fst (getValidSpawnPoint sc) = (Some x, Some y)
              \<and> heap sc' ?i = Some e
              \<and> Enemy_new ?i x y (Some enemyConfig) = ([AddExisting ?i, PhysicsAddExisting ?i], Inr e)"
    using g first en by auto
  show ?case using run a b c by blast
qed

lemma startNextWave_won:
  "maxWaves sc \<le> currentWave sc \<Longrightarrow>
   startNextWave sc = Inr (showGameWon (sc\<lparr>currentWave := currentWave sc + 1\<rparr>))"
  by (simp add: startNextWave_def Let_def)

lemma startNextWave_repeat_won:
  "maxWaves sc \<le> currentWave sc \<Longrightarrow>
   \<exists>sc'. startNextWave_repeat k sc = Inr sc' \<and> enemies sc' = enemies sc \<and> heap sc' = heap sc"
proof (induction k arbitrary: sc)
  case 0
  then show ?case by simp
next
  case (Suc k)
  let ?s = "showGameWon (sc\<lparr>currentWave := currentWave sc + 1\<rparr>)"
  have "maxWaves ?s \<le> currentWave ?s" using Suc.prems by (simp add: showGameWon_def)
  from Suc.IH[OF this] show ?case
    using startNextWave_won[OF Suc.prems] by (simp add: showGameWon_def)
qed

text \<open>
  Claim C2. For every scene, \<^verbatim>\<open>startNextWave()\<close> returns without an error and
  raises the wave counter by one. When the raised counter is at most \<open>maxWaves\<close> it
  spawns exactly that many enemies (one from wave 0, two from wave 1, and so on): it
  appends that many new identities to \<open>enemies\<close>, under each of them the heap holds an
  enemy as the constructor makes it from the goblin configuration, the first of them
  at the first spawn point found, the objects created earlier stay as they are, and the
  wave text is shown. When the raised counter exceeds \<open>maxWaves\<close> it shows the victory
  text and creates no enemy, and neither does any number of further calls.
\<close>

theorem startNextWave_spawns_wave:
  "\<exists>sc'. startNextWave sc = Inr sc'
      \<and> currentWave sc' = currentWave sc + 1
      \<and> maxWaves sc' = maxWaves sc
      \<and> (if currentWave sc + 1 \<le> maxWaves sc
          then enemies sc' = enemies sc @ [nextIdent sc ..< nextIdent sc + (currentWave sc + 1)]
             \<and> length (enemies sc') = length (enemies sc) + (currentWave sc + 1)
             \<and> nextIdent sc' = nextIdent sc + (currentWave sc + 1)
             \<and> (\<forall>i \<in> set [nextIdent sc ..< nextIdent sc + (currentWave sc + 1)].
                   \<exists>x y e. heap sc' i = Some e
                     \<and> Enemy_new i x y (Some enemyConfig) =
                         ([AddExisting i, PhysicsAddExisting i], Inr e))
             \<and> (\<exists>x y e. fst (getValidSpawnPoint (sc\<lparr>currentWave := currentWave sc + 1\<rparr>))
                           = (Some x, Some y)
                     \<and> heap sc' (nextIdent sc) = Some e
                     \<and> Enemy_new (nextIdent sc) x y (Some enemyConfig) =
                         ([AddExisting (nextIdent sc), PhysicsAddExisting (nextIdent sc)], Inr e))
             \<and> (\<forall>i. i < nextIdent sc \<longrightarrow> heap sc' i = heap sc i)
             \<and> effects sc' \<noteq> [] \<and> last (effects sc') = WaveText (currentWave sc + 1) (maxWaves sc)
          else enemies sc' = enemies sc \<and> heap sc' = heap sc
             \<and> effects sc' = effects sc @ [VictoryText]
             \<and> (\<forall>k. \<exists>sc''. startNextWave_repeat k sc' = Inr sc''
                    \<and> enemies sc'' = enemies sc \<and> heap sc'' = heap sc))"
proof (cases "currentWave sc + 1 \<le> maxWaves sc")
  case True
  let ?s1 = "sc\<lparr>currentWave := currentWave sc + 1\<rparr>"
  let ?n = "currentWave sc + 1"
  obtain s2 where r: "spawn_loop ?n ?s1 = Inr s2"
    "enemies s2 = enemies ?s1 @ [nextIdent ?s1 ..< nextIdent ?s1 + ?n]"
    "nextIdent s2 = nextIdent ?s1 + ?n"
    "currentWave s2 = currentWave ?s1" "maxWaves s2 = maxWaves ?s1"
    using spawn_loop_ok[of ?n ?s1] by blast
  obtain s2' where o: "spawn_loop ?n ?s1 = Inr s2'"
    and new: "\<forall>i. nextIdent ?s1 \<le> i \<and> i < nextIdent ?s1 + ?n \<longrightarrow>
           (\<exists>x y e. heap s2' i = Some e
              \<and> Enemy_new i x y (Some enemyConfig) = ([AddExisting i, PhysicsAddExisting i], Inr e))"
    and old: "\<forall>i. i < nextIdent ?s1 \<longrightarrow> heap s2' i = heap ?s1 i"
    and first: "0 < ?n \<longrightarrow>
           (\<exists>x y e. fst (getValidSpawnPoint ?s1) = (Some x, Some y)
              \<and> heap s2' (nextIdent ?s1) = Some e
              \<and> Enemy_new (nextIdent ?s1) x y (Some enemyConfig) =
                  ([AddExisting (nextIdent ?s1), PhysicsAddExisting (nextIdent ?s1)], Inr e))"
    using spawn_loop_objects[of ?n ?s1] by (elim exE conjE) auto
  have same: "s2' = s2" using r(1) o by simp
  have sc': "startNextWave sc = Inr (displayWaveCounter s2)"
    using True r(1) by (simp add: startNextWave_def Let_def)
  have h: "heap (displayWaveCounter s2) = heap s2" by (simp add: displayWaveCounter_def)
  have a: "\<forall>i \<in> set [nextIdent sc ..< nextIdent sc + ?n].
                   \<exists>x y e. heap (displayWaveCounter s2) i = Some e
                     \<and> Enemy_new i x y (Some enemyConfig) =
                         ([AddExisting i, PhysicsAddExisting i], Inr e)"
    using new unfolding same h by simp
  have b: "\<exists>x y e. fst (getValidSpawnPoint ?s1) = (Some x, Some y)
                     \<and> heap (displayWaveCounter s2) (nextIdent sc) = Some e
                     \<and> Enemy_new (nextIdent sc) x y (Some enemyConfig) =
                         ([AddExisting (nextIdent sc), PhysicsAddExisting (nextIdent sc)], Inr e)"
    using first unfolding same h by simp
  have c: "\<forall>i. i < nextIdent sc \<longrightarrow> heap (displayWaveCounter s2) i = heap sc i"
    using old unfolding same h by simp
  have d: "currentWave (displayWaveCounter s2) = currentWave sc + 1"
    "maxWaves (displayWaveCounter s2) = maxWaves sc"
    "enemies (displayWaveCounter s2) = enemies sc @ [nextIdent sc ..< nextIdent sc + ?n]"
    "length (enemies (displayWaveCounter s2)) = length (enemies sc) + ?n"
    "nextIdent (displayWaveCounter s2) = nextIdent sc + ?n"
    "effects (displayWaveCounter s2) \<noteq> []"
    "last (effects (displayWaveCounter s2)) = WaveText (currentWave sc + 1) (maxWaves sc)"
    using r by (simp_all add: displayWaveCounter_def)
  show ?thesis
    apply (rule exI[of _ "displayWaveCounter s2"])
    using True sc' a b c d by simp
next
  case False
  let ?s = "showGameWon (sc\<lparr>currentWave := currentWave sc + 1\<rparr>)"
  have w: "startNextWave sc = Inr ?s" using False by (simp add: startNextWave_won)
  have "maxWaves ?s \<le> currentWave ?s" using False by (simp add: showGameWon_def)
  then have "\<forall>k. \<exists>sc''. startNextWave_repeat k ?s = Inr sc''
                    \<and> enemies sc'' = enemies sc \<and> heap sc'' = heap sc"
    using startNextWave_repeat_won[of ?s] by (simp add: showGameWon_def)
  then show ?thesis using False w by (simp add: showGameWon_def)
qed

theorem startNextWave_spawns_wave_witness:
  "(\<exists>sc' e. startNextWave arena = Inr sc' \<and> currentWave sc' = 1 \<and> enemies sc' = [0]
        \<and> heap sc' 0 = Some e \<and> ident e = 0 \<and> hitsTaken e = 0 \<and> \<not> isDying e
        \<and> target e = Some ThePlayer)
 \<and> (\<exists>sc' e1 e2. startNextWave (arena\<lparr>currentWave := 1, nextIdent := 1\<rparr>) = Inr sc'
        \<and> currentWave sc' = 2 \<and> enemies sc' = [1, 2]
        \<and> heap sc' 1 = Some e1 \<and> ident e1 = 1 \<and> heap sc' 2 = Some e2 \<and> ident e2 = 2)
 \<and> (\<exists>sc'. startNextWave (arena\<lparr>currentWave := 5, nextIdent := 15\<rparr>) = Inr sc'
        \<and> currentWave sc' = 6 \<and> enemies sc' = [] \<and> heap sc' = Map.empty
        \<and> effects sc' = [VictoryText])"
proof -
  have u: "[1 ..< 3] = [1::nat, 2]" by (simp add: upt_conv_Cons)
  have fields: "ident e = i \<and> hitsTaken e = 0 \<and> \<not> isDying e \<and> target e = Some ThePlayer"
    if "Enemy_new i x y (Some enemyConfig) = (c, Inr e)" for i x y c e
    using that by (auto simp: Enemy_new_def enemyConfig_def truthy_str_def)
  obtain s1 where s1: "startNextWave arena = Inr s1" "currentWave s1 = 1" "enemies s1 = [0]"
    "\<exists>x y e. heap s1 0 = Some e
        \<and> Enemy_new 0 x y (Some enemyConfig) = ([AddExisting 0, PhysicsAddExisting 0], Inr e)"
    using startNextWave_spawns_wave[of arena] by (auto simp: arena_fields)
  have a: "\<exists>sc' e. startNextWave arena = Inr sc' \<and> currentWave sc' = 1 \<and> enemies sc' = [0]
        \<and> heap sc' 0 = Some e \<and> ident e = 0 \<and> hitsTaken e = 0 \<and> \<not> isDying e
        \<and> target e = Some ThePlayer"
    using s1 fields by fastforce
  obtain s2 where s2: "startNextWave (arena\<lparr>currentWave := 1, nextIdent := 1\<rparr>) = Inr s2"
    "currentWave s2 = 2" "enemies s2 = [1, 2]"
    "\<exists>x y e. heap s2 (Suc 0) = Some e
        \<and> Enemy_new (Suc 0) x y (Some enemyConfig)
            = ([AddExisting (Suc 0), PhysicsAddExisting (Suc 0)], Inr e)"
    "\<exists>x y e. heap s2 (Suc (Suc 0)) = Some e
        \<and> Enemy_new (Suc (Suc 0)) x y (Some enemyConfig)
            = ([AddExisting (Suc (Suc 0)), PhysicsAddExisting (Suc (Suc 0))], Inr e)"
    using startNextWave_spawns_wave[of "arena\<lparr>currentWave := 1, nextIdent := 1\<rparr>"] u
    apply (auto simp: arena_fields)
    by blast
  have "\<exists>e1. heap s2 1 = Some e1 \<and> ident e1 = 1" "\<exists>e2. heap s2 2 = Some e2 \<and> ident e2 = 2"
    using s2(4,5) fields unfolding numeral_2_eq_2 One_nat_def by fastforce+
  then have b: "\<exists>sc' e1 e2. startNextWave (arena\<lparr>currentWave := 1, nextIdent := 1\<rparr>) = Inr sc'
        \<and> currentWave sc' = 2 \<and> enemies sc' = [1, 2]
        \<and> heap sc' 1 = Some e1 \<and> ident e1 = 1 \<and> heap sc' 2 = Some e2 \<and> ident e2 = 2"
    using s2(1-3) by blast
  have c: "\<exists>sc'. startNextWave (arena\<lparr>currentWave := 5, nextIdent := 15\<rparr>) = Inr sc'
        \<and> currentWave sc' = 6 \<and> enemies sc' = [] \<and> heap sc' = Map.empty
        \<and> effects sc' = [VictoryText]"
    using startNextWave_spawns_wave[of "arena\<lparr>currentWave := 5, nextIdent := 15\<rparr>"]
    by (auto simp: arena_fields)
  show ?thesis using a b c by blast
qed

section \<open>The wave invariant holds in every reachable state\<close>

lemma wave_timers_submit: "wave_timers (submit cs sc) = wave_timers sc @ filter (\<lambda>t. wave_callback (snd t)) (scheduled cs)"
  by (simp add: wave_timers_def)

text \<open>Steps that leave the enemy list, the identities and the wave callbacks alone and
  keep dying enemies dying keep the invariant.\<close>

lemma wave_inv_frame:
  assumes inv: "wave_inv sc"
    and en: "enemies sc' = enemies sc" and ni: "nextIdent sc' = nextIdent sc"
    and wd: "distinct (map snd (wave_timers sc'))"
    and wt: "set (wave_timers sc') \<subseteq> set (wave_timers sc)"
    and id: "\<And>i e'. heap sc' i = Some e' \<Longrightarrow> \<exists>e. heap sc i = Some e \<and> ident e' = ident e"
    and dy: "\<And>i e. heap sc i = Some e \<Longrightarrow> isDying e \<Longrightarrow> \<exists>e'. heap sc' i = Some e' \<and> isDying e'"
  shows "wave_inv sc'"
proof -
  have a: "distinct (enemies sc')" "\<forall>i \<in> set (enemies sc'). i < nextIdent sc'"
    using inv en ni unfolding wave_inv_def by simp_all
  have a': "\<forall>d. (d, StartNextWaveCb) \<in> set (wave_timers sc') \<longrightarrow> d = 1000 \<and> enemies sc' = []"
    using inv en wt unfolding wave_inv_def by auto
  have b: "\<forall>i e. heap sc' i = Some e \<longrightarrow> ident e = i"
  proof (intro allI impI)
    fix i e' assume "heap sc' i = Some e'"
    then obtain e where "heap sc i = Some e" "ident e' = ident e" using id by blast
    then show "ident e' = i" using inv unfolding wave_inv_def by simp
  qed
  have c: "\<forall>d i. (d, EnemyDestroy i) \<in> set (wave_timers sc') \<longrightarrow>
          d = 500 \<and> i \<in> set (enemies sc') \<and> (\<exists>e. heap sc' i = Some e \<and> isDying e)"
  proof (intro allI impI)
    fix d i assume "(d, EnemyDestroy i) \<in> set (wave_timers sc')"
    then have "(d, EnemyDestroy i) \<in> set (wave_timers sc)" using wt by blast
    then have "d = 500 \<and> i \<in> set (enemies sc) \<and> (\<exists>e. heap sc i = Some e \<and> isDying e)"
      using inv unfolding wave_inv_def by blast
    then show "d = 500 \<and> i \<in> set (enemies sc') \<and> (\<exists>e. heap sc' i = Some e \<and> isDying e)"
      using en dy by auto
  qed
  show ?thesis unfolding wave_inv_def using a a' wd b c by blast
qed

lemma wave_inv_same_timers:
  assumes "wave_inv sc"
    and "enemies sc' = enemies sc" and "nextIdent sc' = nextIdent sc"
    and "wave_timers sc' = wave_timers sc"
    and "\<And>i e'. heap sc' i = Some e' \<Longrightarrow> \<exists>e. heap sc i = Some e \<and> ident e' = ident e"
    and "\<And>i e. heap sc i = Some e \<Longrightarrow> isDying e \<Longrightarrow> \<exists>e'. heap sc' i = Some e' \<and> isDying e'"
  shows "wave_inv sc'"
proof (rule wave_inv_frame[OF assms(1,2,3)])
  show "distinct (map snd (wave_timers sc'))" using assms(1,4) by (simp add: wave_inv_def)
  show "set (wave_timers sc') \<subseteq> set (wave_timers sc)" using assms(4) by simp
qed (use assms(5,6) in blast)+

lemma update_enemy_fields [simp]:
  "enemies (update_enemy i f sc) = enemies sc"
  "nextIdent (update_enemy i f sc) = nextIdent sc"
  "timers (update_enemy i f sc) = timers sc"
  by (simp_all add: update_enemy_def split: option.splits)

lemma wave_inv_update_enemy:
  assumes "wave_inv sc" and "\<And>e. ident (f e) = ident e" and "\<And>e. isDying (f e) = isDying e"
  shows "wave_inv (update_enemy i f sc)"
proof (cases "heap sc i")
  case None
  then have "update_enemy i f sc = sc" by (simp add: update_enemy_def)
  then show ?thesis using assms(1) by simp
next
  case (Some a)
  then have u: "update_enemy i f sc = sc\<lparr>heap := (heap sc)(i \<mapsto> f a)\<rparr>"
    by (simp add: update_enemy_def)
  show ?thesis unfolding u
  proof (rule wave_inv_same_timers[OF assms(1)])
    fix j e' assume "heap (sc\<lparr>heap := (heap sc)(i \<mapsto> f a)\<rparr>) j = Some e'"
    then have "(j = i \<and> e' = f a) \<or> heap sc j = Some e'" by (simp split: if_splits)
    then show "\<exists>e. heap sc j = Some e \<and> ident e' = ident e"
      using Some assms(2)[of a] by blast
  next
    fix j e assume h: "heap sc j = Some e" "isDying e"
    show "\<exists>e'. heap (sc\<lparr>heap := (heap sc)(i \<mapsto> f a)\<rparr>) j = Some e' \<and> isDying e'"
    proof (cases "j = i")
      case True
      then show ?thesis using h Some assms(3)[of a] by simp
    next
      case False
      then show ?thesis using h by simp
    qed
  qed (simp_all add: wave_timers_def)
qed

lemma wave_inv_eq:
  "wave_inv sc \<Longrightarrow> enemies sc' = enemies sc \<Longrightarrow> nextIdent sc' = nextIdent sc \<Longrightarrow>
   wave_timers sc' = wave_timers sc \<Longrightarrow> heap sc' = heap sc \<Longrightarrow> wave_inv sc'"
  by (simp add: wave_inv_def)

lemma run_callback_player_frame:
  assumes "\<not> wave_callback cb" and "\<forall>i. cb \<noteq> EnemyStunClear i" and "\<forall>i. cb \<noteq> EnemyClearTint i"
    and "run_callback cb sc = Inr sc'"
  shows "enemies sc' = enemies sc \<and> nextIdent sc' = nextIdent sc
       \<and> wave_timers sc' = wave_timers sc \<and> heap sc' = heap sc"
proof (cases cb)
  case (ItemTintReset k c)
  then have "sc' = (case breakableItems sc k of
            None \<Rightarrow> sc
          | Some item \<Rightarrow>
              sc\<lparr>breakableItems := (breakableItems sc)(k \<mapsto>
                     item\<lparr>item_tile := (item_tile item)\<lparr>tint := c\<rparr>\<rparr>),
                 itemsLayer := setTintAt (tile_x (item_tile item)) (tile_y (item_tile item))
                                 c (itemsLayer sc)\<rparr>)"
    using assms(4) by simp
  then show ?thesis by (cases "breakableItems sc k") (simp_all add: wave_timers_def)
next
  case (PlayerFlash k)
  then show ?thesis using assms(4) by (cases "k > 0") (auto simp: wave_timers_def Let_def)
next
  case ResetInvincible
  then show ?thesis using assms(4) by (auto simp: wave_timers_def)
next
  case PlayerClearTint
  then show ?thesis using assms(4) by (auto simp: wave_timers_def)
next
  case PlayerKnockbackReset
  then show ?thesis using assms(4) by (auto simp: wave_timers_def)
next
  case ShowGameOverCb
  then show ?thesis using assms(4) by (auto simp: wave_timers_def showGameOver_def)
next
  case RestartPromptCb
  then show ?thesis using assms(4) by (auto simp: wave_timers_def)
qed (use assms in simp_all)

lemma run_callback_benign:
  assumes "wave_inv sc" and "\<not> wave_callback cb" and "run_callback cb sc = Inr sc'"
  shows "wave_inv sc'"
proof -
  consider i where "cb = EnemyStunClear i" | i where "cb = EnemyClearTint i"
    | "\<forall>i. cb \<noteq> EnemyStunClear i" "\<forall>i. cb \<noteq> EnemyClearTint i"
    by blast
  then show ?thesis
  proof cases
    case 1
    then show ?thesis
      using assms wave_inv_update_enemy[of sc "\<lambda>e. e\<lparr>stunned := False\<rparr>" i] by auto
  next
    case 2
    then show ?thesis
      using assms wave_inv_update_enemy[of sc "\<lambda>e. e\<lparr>enemy_tint := None\<rparr>" i] by auto
  next
    case 3
    then show ?thesis
      using run_callback_player_frame[OF assms(2) 3 assms(3)] wave_inv_eq[OF assms(1)] by blast
  qed
qed

lemma wave_timers_member:
  "t \<in> set (wave_timers sc) \<longleftrightarrow> t \<in> set (timers sc) \<and> wave_callback (snd t)"
  by (auto simp: wave_timers_def)

lemma wave_callback_cases:
  "wave_callback cb \<Longrightarrow> cb = StartNextWaveCb \<or> (\<exists>i. cb = EnemyDestroy i)"
  by (cases cb) simp_all

text \<open>Taking a pending callback off the list.\<close>

lemma remove_timer:
  assumes inv: "wave_inv sc" and n: "n < length (timers sc)"
  shows "wave_inv (sc\<lparr>timers := take n (timers sc) @ drop (Suc n) (timers sc)\<rparr>)"
    and "wave_callback (snd (timers sc ! n)) \<Longrightarrow>
         (d, snd (timers sc ! n)) \<notin>
           set (wave_timers (sc\<lparr>timers := take n (timers sc) @ drop (Suc n) (timers sc)\<rparr>))"
    and "wave_callback (snd (timers sc ! n)) \<Longrightarrow> timers sc ! n \<in> set (wave_timers sc)"
proof -
  let ?P = "\<lambda>t. wave_callback (snd t)"
  let ?xs = "take n (timers sc)" and ?ys = "drop (Suc n) (timers sc)" and ?t = "timers sc ! n"
  let ?s0 = "sc\<lparr>timers := ?xs @ ?ys\<rparr>"
  have split: "timers sc = ?xs @ ?t # ?ys" using n by (rule id_take_nth_drop)
  have w0: "wave_timers ?s0 = filter ?P ?xs @ filter ?P ?ys" by (simp add: wave_timers_def)
  have w: "wave_timers sc = filter ?P ?xs @ filter ?P [?t] @ filter ?P ?ys"
    unfolding wave_timers_def by (subst split) simp
  have d: "distinct (map snd (wave_timers sc))" using inv by (simp add: wave_inv_def)
  have d0: "distinct (map snd (wave_timers ?s0))" using d unfolding w w0 by auto
  have sub: "set (wave_timers ?s0) \<subseteq> set (wave_timers sc)" unfolding w w0 by auto
  show "wave_inv ?s0"
    by (rule wave_inv_frame[OF inv _ _ d0 sub]) auto
  show "(d, snd ?t) \<notin> set (wave_timers ?s0)" if "wave_callback (snd ?t)"
  proof
    assume "(d, snd ?t) \<in> set (wave_timers ?s0)"
    then have "snd (d, snd ?t) \<in> snd ` set (filter ?P ?xs @ filter ?P ?ys)"
      unfolding w0 by (rule imageI)
    then have "snd ?t \<in> snd ` set (filter ?P ?xs @ filter ?P ?ys)" by simp
    moreover have "distinct (map snd (filter ?P ?xs @ ?t # filter ?P ?ys))"
      using d that unfolding w by simp
    ultimately show False by auto
  qed
  show "?t \<in> set (wave_timers sc)" if "wave_callback (snd ?t)"
    using that unfolding w by simp
qed

text \<open>The handler for a destroyed enemy.\<close>

lemma onEnemyDestroy_inv:
  assumes inv: "wave_inv sc" and i: "i \<in> set (enemies sc)"
    and gone: "\<And>d. (d, EnemyDestroy i) \<notin> set (wave_timers sc)"
  shows "wave_inv (onEnemyDestroy i sc)"
proof -
  let ?s1 = "sc\<lparr>enemies := filter (\<lambda>e. e \<noteq> i) (enemies sc)\<rparr>"
  have w1: "wave_timers ?s1 = wave_timers sc" by (simp add: wave_timers_def)
  have nostart: "(d, StartNextWaveCb) \<notin> set (wave_timers sc)" for d
    using inv i unfolding wave_inv_def by auto
  have others: "j \<noteq> i \<and> j \<in> set (enemies sc) \<and> d = 500 \<and> (\<exists>e. heap sc j = Some e \<and> isDying e)"
    if "(d, EnemyDestroy j) \<in> set (wave_timers sc)" for d j
    using that inv gone unfolding wave_inv_def by blast
  have base: "distinct (enemies ?s1)" "\<forall>j \<in> set (enemies ?s1). j < nextIdent ?s1"
    "\<forall>j e. heap ?s1 j = Some e \<longrightarrow> ident e = j"
    using inv unfolding wave_inv_def by auto
  have destroys: "\<forall>d j. (d, EnemyDestroy j) \<in> set (wave_timers sc) \<longrightarrow>
          d = 500 \<and> j \<in> set (enemies ?s1) \<and> (\<exists>e. heap ?s1 j = Some e \<and> isDying e)"
    using others by auto
  show ?thesis
  proof (cases "filter (\<lambda>e. e \<noteq> i) (enemies sc) = []")
    case True
    then have r: "onEnemyDestroy i sc = ?s1\<lparr>timers := timers sc @ [(1000, StartNextWaveCb)]\<rparr>"
      by (simp add: onEnemyDestroy_def Let_def)
    have w: "wave_timers (onEnemyDestroy i sc) = wave_timers sc @ [(1000, StartNextWaveCb)]"
      unfolding r by (simp add: wave_timers_def)
    have "distinct (map snd (wave_timers sc))" using inv by (simp add: wave_inv_def)
    then have dist: "distinct (map snd (wave_timers (onEnemyDestroy i sc)))"
      unfolding w using nostart by auto
    show ?thesis unfolding wave_inv_def
      using base destroys dist True nostart unfolding w by (auto simp: r)
  next
    case False
    then have r: "onEnemyDestroy i sc = ?s1" by (simp add: onEnemyDestroy_def Let_def)
    have "distinct (map snd (wave_timers sc))" using inv by (simp add: wave_inv_def)
    then show ?thesis unfolding wave_inv_def r w1
      using base destroys nostart by auto
  qed
qed

text \<open>Starting a wave.\<close>

lemma spawn_loop_heap:
  "\<forall>i e. heap sc i = Some e \<longrightarrow> ident e = i \<Longrightarrow> spawn_loop n sc = Inr sc' \<Longrightarrow>
   \<forall>i e. heap sc' i = Some e \<longrightarrow> ident e = i"
proof (induction n arbitrary: sc)
  case 0
  then show ?case by simp
next
  case (Suc n)
  obtain x y c where g: "getValidSpawnPoint sc = ((Some x, Some y), sc\<lparr>rnd_pos := c\<rparr>)"
    using getValidSpawnPoint_point by blast
  let ?s1 = "sc\<lparr>rnd_pos := c\<rparr>"
  obtain e where s: "spawnEnemy x y ?s1 =
          Inr (?s1\<lparr> heap := (heap ?s1)(nextIdent ?s1 \<mapsto> e), nextIdent := nextIdent ?s1 + 1,
                   effects := effects ?s1 @ [AddExisting (nextIdent ?s1), PhysicsAddExisting (nextIdent ?s1)],
                   enemies := enemies ?s1 @ [nextIdent ?s1] \<rparr>)"
      and e: "ident e = nextIdent ?s1"
    using spawnEnemy_ok[of x y ?s1] by blast
  let ?s2 = "?s1\<lparr> heap := (heap ?s1)(nextIdent ?s1 \<mapsto> e), nextIdent := nextIdent ?s1 + 1,
                   effects := effects ?s1 @ [AddExisting (nextIdent ?s1), PhysicsAddExisting (nextIdent ?s1)],
                   enemies := enemies ?s1 @ [nextIdent ?s1] \<rparr>"
  have h2: "\<forall>i e. heap ?s2 i = Some e \<longrightarrow> ident e = i" using Suc.prems(1) e by simp
  have "spawn_loop n ?s2 = Inr sc'" using Suc.prems(2) g s by simp
  then show ?case using Suc.IH[OF h2] by blast
qed

lemma startNextWave_shape:
  assumes "startNextWave sc = Inr sc'"
  shows "timers sc' = timers sc
       \<and> (\<exists>k. enemies sc' = enemies sc @ [nextIdent sc ..< nextIdent sc + k]
             \<and> nextIdent sc' = nextIdent sc + k)
       \<and> ((\<forall>i e. heap sc i = Some e \<longrightarrow> ident e = i) \<longrightarrow>
            (\<forall>i e. heap sc' i = Some e \<longrightarrow> ident e = i))"
proof (cases "currentWave sc + 1 \<le> maxWaves sc")
  case True
  let ?s1 = "sc\<lparr>currentWave := currentWave sc + 1\<rparr>"
  obtain s2 where r: "spawn_loop (currentWave sc + 1) ?s1 = Inr s2"
    "enemies s2 = enemies ?s1 @ [nextIdent ?s1 ..< nextIdent ?s1 + (currentWave sc + 1)]"
    "nextIdent s2 = nextIdent ?s1 + (currentWave sc + 1)" "timers s2 = timers ?s1"
    using spawn_loop_ok[of "currentWave sc + 1" ?s1] by blast
  have sc': "sc' = displayWaveCounter s2"
    using assms True r(1) by (simp add: startNextWave_def Let_def)
  have a: "timers sc' = timers sc" using r(4) by (simp add: sc' displayWaveCounter_def)
  have b: "\<exists>k. enemies sc' = enemies sc @ [nextIdent sc ..< nextIdent sc + k]
             \<and> nextIdent sc' = nextIdent sc + k"
    using r(2,3) by (auto simp: sc' displayWaveCounter_def)
  have c: "\<forall>i e. heap sc' i = Some e \<longrightarrow> ident e = i" if "\<forall>i e. heap sc i = Some e \<longrightarrow> ident e = i"
  proof -
    have "\<forall>i e. heap ?s1 i = Some e \<longrightarrow> ident e = i" using that by simp
    from spawn_loop_heap[OF this r(1)] show ?thesis by (simp add: sc' displayWaveCounter_def)
  qed
  show ?thesis using a b c by blast
next
  case False
  let ?s1 = "sc\<lparr>currentWave := currentWave sc + 1\<rparr>"
  from False have sc': "sc' = showGameWon ?s1" using assms by (simp add: startNextWave_def Let_def)
  have a: "timers sc' = timers sc" by (simp add: sc' showGameWon_def)
  have b: "\<exists>k. enemies sc' = enemies sc @ [nextIdent sc ..< nextIdent sc + k]
             \<and> nextIdent sc' = nextIdent sc + k"
    by (rule exI[of _ 0]) (simp add: sc' showGameWon_def)
  have c: "\<forall>i e. heap sc' i = Some e \<longrightarrow> ident e = i" if "\<forall>i e. heap sc i = Some e \<longrightarrow> ident e = i"
    using that by (simp add: sc' showGameWon_def)
  show ?thesis using a b c by blast
qed

lemma startNextWave_inv:
  assumes ids: "\<forall>i e. heap sc i = Some e \<longrightarrow> ident e = i"
    and empty: "enemies sc = []" and none: "wave_timers sc = []"
    and run: "startNextWave sc = Inr sc'"
  shows "wave_inv sc'"
proof -
  note sh = startNextWave_shape[OF run]
  obtain k where k: "enemies sc' = [nextIdent sc ..< nextIdent sc + k]"
    "nextIdent sc' = nextIdent sc + k"
    using sh empty by auto
  have w: "wave_timers sc' = []"
    using sh none by (simp add: wave_timers_def)
  have h: "\<forall>i e. heap sc' i = Some e \<longrightarrow> ident e = i" using sh ids by blast
  show ?thesis unfolding wave_inv_def
    using k w h by auto
qed

text \<open>Running a pending callback.\<close>

lemma fire_inv:
  assumes inv: "wave_inv sc" and n: "n < length (timers sc)" and run: "fire n sc = Inr sc'"
  shows "wave_inv sc'"
proof -
  let ?s0 = "sc\<lparr>timers := take n (timers sc) @ drop (Suc n) (timers sc)\<rparr>"
  let ?cb = "snd (timers sc ! n)"
  have r: "run_callback ?cb ?s0 = Inr sc'" using run n by (simp add: fire_def)
  have inv0: "wave_inv ?s0" using remove_timer(1)[OF inv n] .
  show ?thesis
  proof (cases "wave_callback ?cb")
    case False
    then show ?thesis using run_callback_benign[OF inv0 False r] by simp
  next
    case True
    have gone: "(d, ?cb) \<notin> set (wave_timers ?s0)" for d
      using remove_timer(2)[OF inv n True] .
    have pend: "(fst (timers sc ! n), ?cb) \<in> set (wave_timers sc)"
      using remove_timer(3)[OF inv n True] by simp
    from wave_callback_cases[OF True] show ?thesis
    proof
      assume cb: "?cb = StartNextWaveCb"
      have e: "enemies ?s0 = []" using pend inv unfolding cb wave_inv_def by auto
      have "wave_timers ?s0 = []"
      proof (rule ccontr)
        assume "wave_timers ?s0 \<noteq> []"
        then obtain t where t: "t \<in> set (wave_timers ?s0)" by (cases "wave_timers ?s0") auto
        then have "wave_callback (snd t)" by (simp add: wave_timers_member)
        then have "snd t = StartNextWaveCb \<or> (\<exists>i. snd t = EnemyDestroy i)"
          by (rule wave_callback_cases)
        then show False
        proof
          assume "snd t = StartNextWaveCb"
          then have "(fst t, ?cb) \<in> set (wave_timers ?s0)" using t cb by (metis prod.collapse)
          then show False using gone by blast
        next
          assume "\<exists>i. snd t = EnemyDestroy i"
          then obtain i where "snd t = EnemyDestroy i" by blast
          then have "(fst t, EnemyDestroy i) \<in> set (wave_timers ?s0)" using t by (metis prod.collapse)
          then have "i \<in> set (enemies ?s0)" using inv0 unfolding wave_inv_def by blast
          then show False using e by simp
        qed
      qed
      moreover have "\<forall>i e. heap ?s0 i = Some e \<longrightarrow> ident e = i"
        using inv0 unfolding wave_inv_def by blast
      ultimately show ?thesis using startNextWave_inv[OF _ e _ ] r cb by simp
    next
      assume "\<exists>i. ?cb = EnemyDestroy i"
      then obtain i where cb: "?cb = EnemyDestroy i" by blast
      have "i \<in> set (enemies sc)" using pend inv unfolding cb wave_inv_def by blast
      then have i: "i \<in> set (enemies ?s0)" by simp
      have "wave_inv (onEnemyDestroy i ?s0)"
        using onEnemyDestroy_inv[OF inv0 i] gone unfolding cb by blast
      then show ?thesis using r cb by simp
    qed
  qed
qed

text \<open>The two collision callbacks and the item check.\<close>

lemma takeDamage_wave:
  "takeDamage t d e = (k, e', calls) \<Longrightarrow>
   ident e' = ident e
 \<and> (filter (\<lambda>t. wave_callback (snd t)) (scheduled calls) = [] \<and> isDying e' = isDying e
    \<or> filter (\<lambda>t. wave_callback (snd t)) (scheduled calls) = [(500, EnemyDestroy (ident e))]
      \<and> \<not> isDying e \<and> isDying e')"
  by (auto simp: takeDamage_def die_def Let_def split: if_splits)

lemma hitEnemy_wave:
  assumes "hitEnemy t p e = (h, e', calls)"
  shows "ident e' = ident e
 \<and> (filter (\<lambda>t. wave_callback (snd t)) (scheduled calls) = [] \<and> isDying e' = isDying e
    \<or> filter (\<lambda>t. wave_callback (snd t)) (scheduled calls) = [(500, EnemyDestroy (ident e))]
      \<and> \<not> isDying e \<and> isDying e')"
proof (cases "isAttacking p")
  case False
  then show ?thesis using assms by (simp add: hitEnemy_def)
next
  case True
  define kx where "kx = (case attackDirection p of
                            Right \<Rightarrow> knockbackForce p | Left \<Rightarrow> - knockbackForce p
                          | Up \<Rightarrow> 0 | Down \<Rightarrow> 0)"
  define ky where "ky = (case attackDirection p of
                            Right \<Rightarrow> 0 | Left \<Rightarrow> 0
                          | Up \<Rightarrow> - knockbackForce p | Down \<Rightarrow> knockbackForce p)"
  define e3 where "e3 = (if stunned e
       then e\<lparr>velocity_x := kx, velocity_y := ky, enemy_tint := Some 0xff0000\<rparr>
       else e\<lparr>velocity_x := kx, velocity_y := ky, stunned := True, enemy_tint := Some 0xff0000\<rparr>)"
  define c1 where "c1 = (if \<not> stunned e then [Schedule 500 (EnemyStunClear (ident e))] else [])"
  obtain k e4 c3 where td: "takeDamage t (attackDamage p) e3 = (k, e4, c3)"
    by (cases "takeDamage t (attackDamage p) e3") auto
  have "hitEnemy t p e = (True, e4, c1 @ [Schedule 150 (EnemyClearTint (ident e))] @ c3)"
  proof (cases "stunned e")
    case s: True
    then have "takeDamage t (attackDamage p)
                 (e\<lparr>velocity_x := kx, velocity_y := ky, enemy_tint := Some 0xff0000\<rparr>) = (k, e4, c3)"
      using td by (simp add: e3_def)
    then show ?thesis using True s
      by (simp add: hitEnemy_def Let_def kx_def ky_def c1_def)
  next
    case s: False
    then have "takeDamage t (attackDamage p)
                 (e\<lparr>velocity_x := kx, velocity_y := ky, stunned := True,
                    enemy_tint := Some 0xff0000\<rparr>) = (k, e4, c3)"
      using td by (simp add: e3_def)
    then show ?thesis using True s
      by (simp add: hitEnemy_def Let_def kx_def ky_def c1_def)
  qed
  then have r: "e' = e4" "calls = c1 @ [Schedule 150 (EnemyClearTint (ident e))] @ c3"
    using assms by simp_all
  have e3: "ident e3 = ident e" "isDying e3 = isDying e" by (simp_all add: e3_def)
  have "filter (\<lambda>t. wave_callback (snd t)) (scheduled calls)
          = filter (\<lambda>t. wave_callback (snd t)) (scheduled c3)"
    by (simp add: r c1_def)
  then show ?thesis using takeDamage_wave[OF td] e3 r(1) by simp
qed

lemma swordHit_fields:
  assumes "hitEnemy t (player sc) e = (h, e', calls)"
  shows "enemies (swordHit t e sc) = enemies sc"
    "nextIdent (swordHit t e sc) = nextIdent sc"
    "heap (swordHit t e sc) = (heap sc)(ident e \<mapsto> e')"
    "wave_timers (swordHit t e sc) =
       wave_timers sc @ filter (\<lambda>t. wave_callback (snd t)) (scheduled calls)"
  using assms by (simp_all add: swordHit_def Let_def wave_timers_def)

lemma swordHit_inv:
  assumes inv: "wave_inv sc" and i: "i \<in> set (enemies sc)" and e: "heap sc i = Some e"
  shows "wave_inv (swordHit t e sc)"
proof -
  let ?s = "swordHit t e sc"
  obtain h e' calls where he: "hitEnemy t (player sc) e = (h, e', calls)"
    by (cases "hitEnemy t (player sc) e") auto
  note f = swordHit_fields[OF he]
  have id: "ident e = i" using inv e unfolding wave_inv_def by blast
  note hw = hitEnemy_wave[OF he]
  have id': "ident e' = i" using hw id by simp
  have heap': "heap ?s = (heap sc)(i \<mapsto> e')" using f(3) id by simp
  from hw consider
      (same) "filter (\<lambda>t. wave_callback (snd t)) (scheduled calls) = []" "isDying e' = isDying e"
    | (dies) "filter (\<lambda>t. wave_callback (snd t)) (scheduled calls) = [(500, EnemyDestroy i)]"
             "\<not> isDying e" "isDying e'"
    using id by auto
  then show ?thesis
  proof cases
    case same
    show ?thesis
    proof (rule wave_inv_same_timers[OF inv f(1) f(2)])
      show "wave_timers ?s = wave_timers sc" using f(4) same(1) by simp
    next
      fix j x assume "heap ?s j = Some x"
      then have "(j = i \<and> x = e') \<or> heap sc j = Some x" unfolding heap' by (simp split: if_splits)
      then show "\<exists>y. heap sc j = Some y \<and> ident x = ident y" using e id id' by auto
    next
      fix j y assume "heap sc j = Some y" "isDying y"
      then show "\<exists>x. heap ?s j = Some x \<and> isDying x"
        unfolding heap' using e same(2) by (cases "j = i") auto
    qed
  next
    case dies
    have w: "wave_timers ?s = wave_timers sc @ [(500, EnemyDestroy i)]" using f(4) dies(1) by simp
    have notpending: "(d, EnemyDestroy i) \<notin> set (wave_timers sc)" for d
      using inv e dies(2) unfolding wave_inv_def by force
    have nostart: "(d, StartNextWaveCb) \<notin> set (wave_timers sc)" for d
      using inv i unfolding wave_inv_def by auto
    have old: "d = 500 \<and> j \<in> set (enemies sc) \<and> (\<exists>y. heap sc j = Some y \<and> isDying y) \<and> j \<noteq> i"
      if "(d, EnemyDestroy j) \<in> set (wave_timers sc)" for d j
      using that inv notpending unfolding wave_inv_def by blast
    have a: "distinct (enemies ?s)" "\<forall>j \<in> set (enemies ?s). j < nextIdent ?s"
      using inv f(1,2) unfolding wave_inv_def by simp_all
    have b: "\<forall>j x. heap ?s j = Some x \<longrightarrow> ident x = j"
      using inv id' unfolding heap' wave_inv_def by auto
    have "distinct (map snd (wave_timers sc))" using inv unfolding wave_inv_def by blast
    then have c: "distinct (map snd (wave_timers ?s))"
      unfolding w using notpending by auto
    have d: "\<forall>d. (d, StartNextWaveCb) \<in> set (wave_timers ?s) \<longrightarrow> d = 1000 \<and> enemies ?s = []"
      unfolding w using nostart by auto
    have g: "\<forall>d j. (d, EnemyDestroy j) \<in> set (wave_timers ?s) \<longrightarrow>
          d = 500 \<and> j \<in> set (enemies ?s) \<and> (\<exists>x. heap ?s j = Some x \<and> isDying x)"
    proof (intro allI impI)
      fix d j assume "(d, EnemyDestroy j) \<in> set (wave_timers ?s)"
      then consider "(d, EnemyDestroy j) \<in> set (wave_timers sc)" | "d = 500" "j = i"
        unfolding w by auto
      then show "d = 500 \<and> j \<in> set (enemies ?s) \<and> (\<exists>x. heap ?s j = Some x \<and> isDying x)"
      proof cases
        case 1
        from old[OF 1] show ?thesis unfolding heap' f(1) by auto
      next
        case 2
        then show ?thesis unfolding heap' f(1) using i dies(3) by simp
      qed
    qed
    show ?thesis unfolding wave_inv_def using a b c d g by blast
  qed
qed

lemma playerHit_inv: "wave_inv sc \<Longrightarrow> wave_inv (playerHit e sc)"
proof (rule wave_inv_eq)
  show "wave_timers (playerHit e sc) = wave_timers sc"
    by (simp add: playerHit_def damagePlayer_def playerDeath_def knockback_def
        UI_damagePlayer_def Let_def wave_timers_def)
qed (simp_all add: playerHit_def damagePlayer_def playerDeath_def knockback_def
        UI_damagePlayer_def Let_def)

lemma hitBreakableItem_frame:
  assumes "hitBreakableItem now k sc = Inr sc'"
  shows "enemies sc' = enemies sc \<and> nextIdent sc' = nextIdent sc \<and> heap sc' = heap sc
       \<and> wave_timers sc' = wave_timers sc"
proof (cases "breakableItems sc k")
  case None
  then show ?thesis using assms by (simp add: hitBreakableItem_def)
next
  case (Some item)
  then show ?thesis using assms
    by (cases k) (auto simp: hitBreakableItem_def Let_def wave_timers_def split: if_splits)
qed

lemma checkSwordItemCollisions_loop_frame:
  "checkSwordItemCollisions_loop now tiles seen sc = Inr sc' \<Longrightarrow>
   enemies sc' = enemies sc \<and> nextIdent sc' = nextIdent sc \<and> heap sc' = heap sc
   \<and> wave_timers sc' = wave_timers sc"
proof (induction tiles arbitrary: seen sc)
  case Nil
  then show ?case by simp
next
  case (Cons a tiles)
  show ?case
  proof (cases a)
    case None
    then show ?thesis using Cons by simp
  next
    case (Some t)
    let ?k = "(tile_x t, tile_y t)"
    consider (skip) "checkSwordItemCollisions_loop now tiles seen sc = Inr sc'"
      | (plain) "checkSwordItemCollisions_loop now tiles (?k # seen) sc = Inr sc'"
      | (hit) s1 where "hitBreakableItem now ?k sc = Inr s1"
          "checkSwordItemCollisions_loop now tiles (?k # seen) s1 = Inr sc'"
      using Cons.prems Some by (auto simp: Let_def split: if_splits sum.splits)
    then show ?thesis
    proof cases
      case skip
      then show ?thesis by (rule Cons.IH)
    next
      case plain
      then show ?thesis by (rule Cons.IH)
    next
      case hit
      then show ?thesis using Cons.IH[OF hit(2)] hitBreakableItem_frame[OF hit(1)] by simp
    qed
  qed
qed

lemma checkSwordItemCollisions_inv:
  "wave_inv sc \<Longrightarrow> checkSwordItemCollisions now tiles sc = Inr sc' \<Longrightarrow> wave_inv sc'"
  using checkSwordItemCollisions_loop_frame[of now tiles "[]" sc sc'] wave_inv_eq[of sc sc']
  by (auto simp: checkSwordItemCollisions_def split: if_splits)

lemma create_inv:
  assumes "create m walls items r = Inr sc"
  shows "wave_inv sc"
proof -
  let ?s = "initBreakableItems (fresh_scene m walls items r)"
  have a: "\<forall>i e. heap ?s i = Some e \<longrightarrow> ident e = i"
    by (simp add: initBreakableItems_def fresh_scene_def)
  have b: "enemies ?s = []" by (simp add: initBreakableItems_def fresh_scene_def)
  have c: "wave_timers ?s = []" by (simp add: initBreakableItems_def fresh_scene_def wave_timers_def)
  have d: "startNextWave ?s = Inr sc" using assms by (simp add: create_def)
  show ?thesis by (rule startNextWave_inv[OF a b c d])
qed

lemma reachable_wave_inv: "reachable sc \<Longrightarrow> wave_inv sc"
proof (induction rule: reachable.induct)
  case (created m walls items r sc)
  then show ?case by (rule create_inv)
next
  case (timer sc n sc')
  show ?case by (rule fire_inv[OF timer.IH timer.hyps(2) timer.hyps(3)])
next
  case (sword sc i e t)
  show ?case by (rule swordHit_inv[OF sword.IH sword.hyps(2) sword.hyps(3)])
next
  case (touch sc i e)
  show ?case by (rule playerHit_inv[OF touch.IH])
next
  case (items sc now tiles sc')
  show ?case by (rule checkSwordItemCollisions_inv[OF items.IH items.hyps(2)])
next
  case (player_acts sc p)
  show ?case by (rule wave_inv_eq[OF player_acts.IH]) (simp_all add: wave_timers_def)
next
  case (enemy_moves sc i e d vy vx ey ex)
  let ?f = "\<lambda>e. e\<lparr>enemy_x := ex, enemy_y := ey, velocity_x := vx, velocity_y := vy,
               currentDirection := d\<rparr>"
  have u: "update_enemy i ?f sc = sc\<lparr>heap := (heap sc)(i \<mapsto> ?f e)\<rparr>"
    using enemy_moves.hyps(2) by (simp add: update_enemy_def)
  have "wave_inv (update_enemy i ?f sc)"
    by (rule wave_inv_update_enemy[OF enemy_moves.IH]) simp_all
  then show ?case unfolding u .
next
  case (shown sc fx)
  show ?case by (rule wave_inv_eq[OF shown.IH]) (simp_all add: wave_timers_def)
next
  case (ui_acts sc u)
  show ?case by (rule wave_inv_eq[OF ui_acts.IH]) (simp_all add: wave_timers_def)
qed

text \<open>The sample run.\<close>

lemma Enemy_new_spawned:
  "\<exists>e. Enemy_new i x y (Some enemyConfig) = ([AddExisting i, PhysicsAddExisting i], Inr e)
       \<and> ident e = i \<and> \<not> isDying e \<and> \<not> stunned e \<and> hitsTaken e = 0
       \<and> hitsToKill e = 3 \<and> hitCooldown e = 500 \<and> lastHitTime e = 0"
  by (simp add: Enemy_new_def enemyConfig_def truthy_str_def)

lemma spawnEnemy_fresh:
  "\<exists>e. spawnEnemy x y sc =
          Inr (sc\<lparr> heap := (heap sc)(nextIdent sc \<mapsto> e), nextIdent := nextIdent sc + 1,
                   effects := effects sc @ [AddExisting (nextIdent sc), PhysicsAddExisting (nextIdent sc)],
                   enemies := enemies sc @ [nextIdent sc] \<rparr>)
       \<and> ident e = nextIdent sc \<and> \<not> isDying e \<and> \<not> stunned e \<and> hitsTaken e = 0
       \<and> hitsToKill e = 3 \<and> hitCooldown e = 500 \<and> lastHitTime e = 0"
  using Enemy_new_spawned[of "nextIdent sc" x y]
  by (auto simp: spawnEnemy_def Let_def)

lemma wave1_facts:
  "create demo_map [] [crate] (\<lambda>_. 0) = Inr wave1 \<and> enemies wave1 = [0] \<and> timers wave1 = []
   \<and> player wave1 = Player_new 100 280
   \<and> (\<exists>e. heap wave1 0 = Some e \<and> ident e = 0 \<and> \<not> isDying e \<and> \<not> stunned e
          \<and> hitsTaken e = 0 \<and> hitsToKill e = 3 \<and> hitCooldown e = 500 \<and> lastHitTime e = 0)"
proof -
  let ?s1 = "arena\<lparr>currentWave := 1\<rparr>"
  obtain x y c where g: "getValidSpawnPoint ?s1 = ((Some x, Some y), ?s1\<lparr>rnd_pos := c\<rparr>)"
    using getValidSpawnPoint_point by blast
  let ?s2 = "?s1\<lparr>rnd_pos := c\<rparr>"
  obtain e where s: "spawnEnemy x y ?s2 =
          Inr (?s2\<lparr> heap := (heap ?s2)(nextIdent ?s2 \<mapsto> e), nextIdent := nextIdent ?s2 + 1,
                   effects := effects ?s2 @ [AddExisting (nextIdent ?s2), PhysicsAddExisting (nextIdent ?s2)],
                   enemies := enemies ?s2 @ [nextIdent ?s2] \<rparr>)"
    and e: "ident e = nextIdent ?s2" "\<not> isDying e" "\<not> stunned e" "hitsTaken e = 0"
       "hitsToKill e = 3" "hitCooldown e = 500" "lastHitTime e = 0"
    using spawnEnemy_fresh[of x y ?s2] by blast
  let ?s3 = "?s2\<lparr> heap := (heap ?s2)(nextIdent ?s2 \<mapsto> e), nextIdent := nextIdent ?s2 + 1,
                   effects := effects ?s2 @ [AddExisting (nextIdent ?s2), PhysicsAddExisting (nextIdent ?s2)],
                   enemies := enemies ?s2 @ [nextIdent ?s2] \<rparr>"
  have loop: "spawn_loop (Suc 0) ?s1 = Inr ?s3" using g s by simp
  have "startNextWave arena = Inr (displayWaveCounter ?s3)"
    using loop by (simp add: startNextWave_def Let_def arena_fields)
  then have c: "create demo_map [] [crate] (\<lambda>_. 0) = Inr (displayWaveCounter ?s3)"
    by (simp add: create_def arena_def)
  then have w: "wave1 = displayWaveCounter ?s3" by (simp add: wave1_def)
  have "heap wave1 0 = Some e" "enemies wave1 = [0]" "timers wave1 = []"
    "player wave1 = Player_new 100 280"
    unfolding w by (simp_all add: displayWaveCounter_def arena_fields)
  moreover have "ident e = 0" using e(1) by (simp add: arena_fields)
  ultimately show ?thesis using c w e by auto
qed

lemma strike_step:
  assumes "heap sc 0 = Some e" "ident e = 0" "\<not> isDying e" "hitCooldown e = 500"
    "hitsToKill e = 3" "t - lastHitTime e \<ge> 500" "isAttacking (player sc)"
  shows "\<exists>e'. heap (swordHit t e sc) 0 = Some e' \<and> ident e' = 0 \<and> hitCooldown e' = 500
     \<and> hitsToKill e' = 3 \<and> lastHitTime e' = t \<and> hitsTaken e' = hitsTaken e + 1 \<and> stunned e'
     \<and> isDying e' = (hitsTaken e + 1 \<ge> 3)
     \<and> enemies (swordHit t e sc) = enemies sc \<and> player (swordHit t e sc) = player sc
     \<and> timers (swordHit t e sc) =
          timers sc @ (if stunned e then [] else [(500, EnemyStunClear 0)])
                    @ [(150, EnemyClearTint 0)]
                    @ (if hitsTaken e + 1 \<ge> 3 then [(500, EnemyDestroy 0)] else [])"
  using assms
  by (cases "stunned e"; cases "hitsTaken e + 1 \<ge> 3")
     (simp_all add: swordHit_def hitEnemy_def takeDamage_def die_def Let_def)

lemma cleared_facts:
  "reachable cleared \<and> timers cleared =
     [(500, EnemyStunClear 0), (150, EnemyClearTint 0), (150, EnemyClearTint 0),
      (150, EnemyClearTint 0), (1000, StartNextWaveCb)]"
proof -
  obtain e0 where w: "create demo_map [] [crate] (\<lambda>_. 0) = Inr wave1" "enemies wave1 = [0]"
    "timers wave1 = []" "player wave1 = Player_new 100 280"
    and e0: "heap wave1 0 = Some e0" "ident e0 = 0" "\<not> isDying e0" "\<not> stunned e0"
      "hitsTaken e0 = 0" "hitsToKill e0 = 3" "hitCooldown e0 = 500" "lastHitTime e0 = 0"
    using wave1_facts by blast
  have r0: "reachable wave1" using w(1) by (rule reachable.created)
  have r1: "reachable armed" unfolding armed_def using r0 by (rule reachable.player_acts)
  have a: "heap armed 0 = Some e0" "enemies armed = [0]" "timers armed = []"
    "isAttacking (player armed)"
    using e0(1) w by (simp_all add: armed_def)
  let ?s1 = "swordHit 1000 e0 armed"
  obtain e1 where s1: "heap ?s1 0 = Some e1" "ident e1 = 0" "hitCooldown e1 = 500"
    "hitsToKill e1 = 3" "lastHitTime e1 = 1000" "hitsTaken e1 = 1" "stunned e1" "\<not> isDying e1"
    "enemies ?s1 = [0]" "isAttacking (player ?s1)"
    "timers ?s1 = [(500, EnemyStunClear 0), (150, EnemyClearTint 0)]"
    using strike_step[of armed e0 1000] a e0 by auto
  have r2: "reachable ?s1" using r1 _ a(1) by (rule reachable.sword) (simp add: a)
  let ?s2 = "swordHit 2000 e1 ?s1"
  obtain e2 where s2: "heap ?s2 0 = Some e2" "ident e2 = 0" "hitCooldown e2 = 500"
    "hitsToKill e2 = 3" "lastHitTime e2 = 2000" "hitsTaken e2 = 2" "stunned e2" "\<not> isDying e2"
    "enemies ?s2 = [0]" "isAttacking (player ?s2)"
    "timers ?s2 = [(500, EnemyStunClear 0), (150, EnemyClearTint 0), (150, EnemyClearTint 0)]"
    using strike_step[of ?s1 e1 2000] s1 by auto
  have r3: "reachable ?s2" using r2 _ s1(1) by (rule reachable.sword) (simp add: s1)
  let ?s3 = "swordHit 3000 e2 ?s2"
  obtain e3 where s3: "heap ?s3 0 = Some e3" "isDying e3" "enemies ?s3 = [0]"
    "timers ?s3 = [(500, EnemyStunClear 0), (150, EnemyClearTint 0), (150, EnemyClearTint 0),
                   (150, EnemyClearTint 0), (500, EnemyDestroy 0)]"
    using strike_step[of ?s2 e2 3000] s2 by auto
  have r4: "reachable ?s3" using r3 _ s2(1) by (rule reachable.sword) (simp add: s2)
  have st: "strikes [1000, 2000, 3000] armed = ?s3" using a(1) s1(1) s2(1) by simp
  let ?s4 = "?s3\<lparr>enemies := [], timers :=
     [(500, EnemyStunClear 0), (150, EnemyClearTint 0), (150, EnemyClearTint 0),
      (150, EnemyClearTint 0), (1000, StartNextWaveCb)]\<rparr>"
  have f: "fire 4 ?s3 = Inr ?s4"
    using s3(3,4) by (simp add: fire_def onEnemyDestroy_def Let_def)
  have c: "cleared = ?s4" using f st by (simp add: cleared_def)
  have "reachable ?s4" using r4 _ f by (rule reachable.timer) (simp add: s3)
  then show ?thesis unfolding c by simp
qed

text \<open>
  Claim C7. \<^verbatim>\<open>create()\<close> starts the first wave on an empty enemy list. After that
  the only call of \<^verbatim>\<open>startNextWave()\<close> is the pending callback \<open>StartNextWaveCb\<close>,
  and in every reachable state in which that callback is pending the enemy list is
  empty and the callback's delay is 1000 ms; running it is the call of
  \<^verbatim>\<open>startNextWave()\<close>. The handler for an enemy's destruction removes the enemy from
  the list and schedules the callback, with delay 1000, exactly when the list has
  become empty.
\<close>

theorem startNextWave_only_when_cleared:
  assumes "reachable sc" and "n < length (timers sc)"
    and "snd (timers sc ! n) = StartNextWaveCb"
  shows "enemies sc = [] \<and> fst (timers sc ! n) = 1000
       \<and> fire n sc = startNextWave (sc\<lparr>timers := take n (timers sc) @ drop (Suc n) (timers sc)\<rparr>)
       \<and> enemies (sc\<lparr>timers := take n (timers sc) @ drop (Suc n) (timers sc)\<rparr>) = []
       \<and> create m walls items r = startNextWave (initBreakableItems (fresh_scene m walls items r))
       \<and> enemies (initBreakableItems (fresh_scene m walls items r)) = []
       \<and> i \<notin> set (enemies (onEnemyDestroy i s))
       \<and> timers (onEnemyDestroy i s) =
           (if filter (\<lambda>e. e \<noteq> i) (enemies s) = [] then timers s @ [(1000, StartNextWaveCb)]
            else timers s)"
proof -
  have inv: "wave_inv sc" using assms(1) by (rule reachable_wave_inv)
  have "timers sc ! n \<in> set (wave_timers sc)"
    using assms(2,3) by (simp add: wave_timers_member)
  then have "(fst (timers sc ! n), StartNextWaveCb) \<in> set (wave_timers sc)"
    using assms(3) by (metis prod.collapse)
  then have a: "fst (timers sc ! n) = 1000 \<and> enemies sc = []"
    using inv unfolding wave_inv_def by blast
  have b: "fire n sc = startNextWave (sc\<lparr>timers := take n (timers sc) @ drop (Suc n) (timers sc)\<rparr>)"
    using assms(2,3) by (simp add: fire_def)
  have c: "create m walls items r = startNextWave (initBreakableItems (fresh_scene m walls items r))"
    "enemies (initBreakableItems (fresh_scene m walls items r)) = []"
    by (simp_all add: create_def initBreakableItems_def fresh_scene_def)
  have d: "i \<notin> set (enemies (onEnemyDestroy i s))"
    "timers (onEnemyDestroy i s) =
           (if filter (\<lambda>e. e \<noteq> i) (enemies s) = [] then timers s @ [(1000, StartNextWaveCb)]
            else timers s)"
    by (simp_all add: onEnemyDestroy_def Let_def)
  show ?thesis using a b c d by simp
qed

theorem startNextWave_only_when_cleared_witness:
  "reachable cleared \<and> 4 < length (timers cleared)
   \<and> timers cleared ! 4 = (1000, StartNextWaveCb)
   \<and> enemies cleared = []"
proof -
  have r: "reachable cleared" and n: "4 < length (timers cleared)"
    and cb: "snd (timers cleared ! 4) = StartNextWaveCb"
    using cleared_facts by simp_all
  have "enemies cleared = [] \<and> fst (timers cleared ! 4) = 1000"
    using startNextWave_only_when_cleared[OF r n cb] by blast
  then show ?thesis using r n cb by (simp add: prod_eq_iff)
qed

end
